theory Spec2Isabelle
  imports Main "HOL-Library.AList" "HOL-Library.Multiset" "HOL-Library.Sublist"
begin

section \<open>Build-log aggregation (package logs of jx): data model\<close>

text \<open>
  The Go errors of the package: \<open>errors.New msg\<close> and the errors of the clients are
  \<open>Error msg\<close>; \<open>errors.Wrap\<close>/\<open>errors.Wrapf err msg\<close> keeps the cause and adds a message.
  A Go \<open>error\<close> value is an \<open>error option\<close>, \<open>None\<close> being \<open>nil\<close>.
\<close>

datatype error = Error string | Wrapf error string


text \<open>A call either returns, panics (a nil pointer is dereferenced) or is still looping
  when the fuel given to its loops is used up.\<close>

datatype 'a outcome = Returned 'a | Panicked | OutOfFuel

text \<open>Label maps (\<open>map[string]string\<close>): reading a missing key gives the empty string.\<close>

type_synonym Labels = "(string \<times> string) list"

definition label :: "Labels \<Rightarrow> string \<Rightarrow> string" where
  "label ls k = (case map_of ls k of None \<Rightarrow> '''' | Some v \<Rightarrow> v)"

text \<open>Creation timestamps are instants; \<open>After\<close> and \<open>Before\<close> compare them.\<close>

type_synonym Time = int

record PipelineActivitySpec =
  Build :: string
  GitOwner :: string
  GitRepository :: string
  GitBranch :: string

record PipelineActivity =
  pa_Name :: string
  pa_Namespace :: string
  pa_Labels :: Labels
  pa_Spec :: PipelineActivitySpec

record Param =
  param_Name :: string
  param_Value :: string

record PipelineRun =
  pr_Name :: string
  pr_Labels :: Labels
  pr_CreationTimestamp :: Time
  pr_Params :: "Param list"

datatype PodPhase = PodPending | PodRunning | PodSucceeded | PodFailed | PodUnknown

datatype ContainerState = Waiting | Running | Terminated

record Container =
  c_Name :: string

record ContainerStatus =
  cs_Name :: string
  cs_State :: ContainerState

record Pod =
  pod_Name :: string
  pod_Labels :: Labels
  pod_CreationTimestamp :: Time
  pod_Phase :: PodPhase
  pod_InitContainers :: "Container list"
  pod_Containers :: "Container list"
  pod_InitContainerStatuses :: "ContainerStatus list"
  pod_ContainerStatuses :: "ContainerStatus list"

text \<open>The fields of \<open>builds.BuildPodInfo\<close> that the package reads (\<open>Build'\<close> is its
  field \<open>Build\<close>, the name being taken by the field of the activity).\<close>

record BuildPodInfo =
  Organisation :: string
  Repository :: string
  Branch :: string
  Build' :: string

text \<open>
  Everything the package calls but does not define is a field of the environment:
  the clients (\<open>jxClient\<close>, \<open>tektonClient\<close>, \<open>kubeClient\<close>), whose answers depend on a state of
  the platform \<open>'w\<close> that every call may change; the helpers of the packages \<open>builds\<close>,
  \<open>kube\<close> and \<open>buckets\<close>; the label constants of the API packages; and the library functions
  \<open>strings.ToLower\<close>, \<open>sort.Slice\<close> (one field per element type) and the colour printer
  \<open>c.Sprintf\<close>. A client call returns Go's pair (pointer, error): the pointer may be nil
  (\<open>None\<close>) and the error may be nil (\<open>None\<close>), independently.
\<close>

record 'w env =
  LabelOwner :: string
  LabelRepository :: string
  LabelBranch :: string
  LabelBuild :: string
  LabelPipelineRunName :: string
  ToLower :: "string \<Rightarrow> string"
  colorSprintf :: "string \<Rightarrow> string"
  sortSlicePipelineRuns ::
    "(PipelineRun \<Rightarrow> PipelineRun \<Rightarrow> bool) \<Rightarrow> PipelineRun list \<Rightarrow> PipelineRun list"
  sortSlicePods :: "(Pod \<Rightarrow> Pod \<Rightarrow> bool) \<Rightarrow> Pod list \<Rightarrow> Pod list"
  PipelineActivitiesList ::
    "string \<Rightarrow> string \<Rightarrow> 'w \<Rightarrow> (PipelineActivity list option \<times> error option) \<times> 'w"
  PipelineRunsList ::
    "string \<Rightarrow> string \<Rightarrow> 'w \<Rightarrow> (PipelineRun list option \<times> error option) \<times> 'w"
  GetBuildPods :: "string \<Rightarrow> 'w \<Rightarrow> (Pod list \<times> error option) \<times> 'w"
  PodsGet :: "string \<Rightarrow> string \<Rightarrow> 'w \<Rightarrow> (Pod option \<times> error option) \<times> 'w"
  CreateBuildPodInfo :: "Pod \<Rightarrow> BuildPodInfo"
  GetContainersWithStatusAndIsInit :: "Pod \<Rightarrow> Container list"
  HasContainerStarted :: "Pod option \<Rightarrow> nat \<Rightarrow> bool"
  ReadURL :: "string \<Rightarrow> nat \<Rightarrow> 'w \<Rightarrow> (string \<times> error option) \<times> 'w"

text \<open>What \<open>sort.Slice\<close> promises for a \<open>less\<close> function: the result is a permutation of
  the slice in which no element is less than one before it. Ties may come in any order.\<close>

definition sortSliceSpec :: "(('a \<Rightarrow> 'a \<Rightarrow> bool) \<Rightarrow> 'a list \<Rightarrow> 'a list) \<Rightarrow> ('a \<Rightarrow> 'a \<Rightarrow> bool) \<Rightarrow> bool" where
  "sortSliceSpec srt lt =
     (\<forall>xs. mset (srt lt xs) = mset xs \<and> sorted_wrt (\<lambda>a b. \<not> lt b a) (srt lt xs))"

section \<open>Matching PipelineActivities and PipelineRuns\<close>

text \<open>\<open>strings.Join\<close> and \<open>strings.Replace s old new 1\<close> (the first occurrence only).\<close>

fun Join :: "string list \<Rightarrow> string \<Rightarrow> string" where
  "Join [] sep = []"
| "Join [x] sep = x"
| "Join (x # y # ys) sep = x @ sep @ Join (y # ys) sep"

fun Replace1 :: "string \<Rightarrow> string \<Rightarrow> string \<Rightarrow> string" where
  "Replace1 [] old new = (if old = [] then new else [])"
| "Replace1 (c # cs) old new =
     (if take (length old) (c # cs) = old then new @ drop (length old) (c # cs)
      else c # Replace1 cs old new)"

definition createPipelineActivityName :: "'w env \<Rightarrow> Labels \<Rightarrow> string \<Rightarrow> string" where
  "createPipelineActivityName env labels buildNumber =
     (let repository = label labels (LabelRepository env);
          repository = (if repository = '''' then label labels ''repo'' else repository)
      in ToLower env (label labels (LabelOwner env) @ ''/'' @ repository @ ''/'' @
                      label labels (LabelBranch env) @ '' #'' @ buildNumber))"

text \<open>The map from names to activities, \<open>map[string]*v1.PipelineActivity\<close>: an association
  list with one entry per key; \<open>len\<close> is its length, a value may be the nil pointer.\<close>

type_synonym paMap = "(string \<times> PipelineActivity option) list"

text \<open>Reading a Go map of pointers at a missing key gives nil.\<close>

definition mapIndex :: "(string \<times> 'a option) list \<Rightarrow> string \<Rightarrow> 'a option" where
  "mapIndex m k = (case map_of m k of None \<Rightarrow> None | Some v \<Rightarrow> v)"

definition replacePipelineActivityNameWithEnrichedName :: "paMap \<Rightarrow> string \<Rightarrow> string \<Rightarrow> paMap" where
  "replacePipelineActivityNameWithEnrichedName m formerName newName =
     AList.delete formerName (AList.update newName (mapIndex m formerName) m)"

text \<open>The loop keeps the value of the last parameter named \<open>build_id\<close>.\<close>

definition findLegacyPipelineRunBuildNumber :: "PipelineRun \<Rightarrow> string" where
  "findLegacyPipelineRunBuildNumber pipelineRun =
     fold (\<lambda>p buildNumber. if param_Name p = ''build_id'' then param_Value p else buildNumber)
       (pr_Params pipelineRun) ''''"

text \<open>The canonical name of a run, as the loop over the runs computes it.\<close>

definition pipelineRunActivityName :: "'w env \<Rightarrow> PipelineRun \<Rightarrow> string" where
  "pipelineRunActivityName env pr =
     (let prBuildNumber = label (pr_Labels pr) (LabelBuild env);
          prBuildNumber = (if prBuildNumber = '''' then findLegacyPipelineRunBuildNumber pr
                           else prBuildNumber)
      in createPipelineActivityName env (pr_Labels pr) prBuildNumber)"

definition nameWithContext :: "'w env \<Rightarrow> PipelineRun \<Rightarrow> string" where
  "nameWithContext env pr = pipelineRunActivityName env pr @ '' '' @ label (pr_Labels pr) ''context''"

text \<open>The body of the loop over the sorted runs, on the pair (names, paMap).\<close>

definition matchRun :: "'w env \<Rightarrow> PipelineRun \<Rightarrow> string list \<times> paMap \<Rightarrow> string list \<times> paMap" where
  "matchRun env pr acc =
     (let (names, m) = acc; paName = pipelineRunActivityName env pr
      in if map_of m paName \<noteq> None
         then (names @ [nameWithContext env pr],
               replacePipelineActivityNameWithEnrichedName m paName (nameWithContext env pr))
         else (names, m))"

definition indexActivities :: "'w env \<Rightarrow> PipelineActivity list \<Rightarrow> paMap" where
  "indexActivities env pas =
     fold (\<lambda>p m. AList.update (createPipelineActivityName env (pa_Labels p) (Build (pa_Spec p))) (Some p) m)
       pas []"

text \<open>The error of the PipelineRuns query is dropped (\<open>tektonPRs, _ := ...\<close>); the list
  pointer is then dereferenced whatever the error was.\<close>

definition GetTektonPipelinesWithActivePipelineActivity ::
  "'w env \<Rightarrow> string \<Rightarrow> string list \<Rightarrow> 'w \<Rightarrow> (string list \<times> paMap \<times> error option) outcome \<times> 'w" where
  "GetTektonPipelinesWithActivePipelineActivity env ns filters w =
     (case PipelineActivitiesList env ns (Replace1 (Join filters '','') ''repo='' ''repository='') w of
        ((paList, Some err), w1) \<Rightarrow>
          (Returned ([], [], Some (Wrapf err ''there was a problem getting the PipelineActivities'')), w1)
      | ((None, None), w1) \<Rightarrow> (Panicked, w1)
      | ((Some pas, None), w1) \<Rightarrow>
          (case PipelineRunsList env ns (Join filters '','') w1 of
             ((None, _), w2) \<Rightarrow> (Panicked, w2)
           | ((Some prs, _), w2) \<Rightarrow>
               (let sorted = sortSlicePipelineRuns env
                               (\<lambda>a b. pr_CreationTimestamp a > pr_CreationTimestamp b) prs;
                    (names, m) = fold (matchRun env) sorted ([], indexActivities env pas)
                in (Returned (names, m, None), w2))))"

section \<open>Streaming the logs of the running build pods\<close>

text \<open>
  The calls a run makes on its collaborators, in order. \<open>CallWarnf\<close> is a line of the
  process log (\<open>log.Logger().Warnf\<close> and \<open>Warn\<close>); \<open>CallWriteLog\<close> and \<open>CallStreamLog\<close> are
  the two operations of the \<open>LogWriter\<close>.
\<close>

datatype call =
    CallPipelineRunsList string string
  | CallGetBuildPods string
  | CallPodsGet string string
  | CallSleep
  | CallWarnf string
  | CallReadURL string nat
  | CallWriteLog string
  | CallStreamLog string "Pod option" Container

record 'w LogWriter =
  WriteLog :: "string \<Rightarrow> 'w \<Rightarrow> error option \<times> 'w"
  StreamLog :: "string \<Rightarrow> Pod option \<Rightarrow> Container \<Rightarrow> 'w \<Rightarrow> error option \<times> 'w"

text \<open>
  The state threaded through a run: the platform, and the trace of the calls made so far.
  Each call is recorded with the number of the loop iteration of \<open>GetRunningBuildLogs\<close>
  it was made in (0 before the loop) and, inside the processing of a pod, the pipeline-run
  label of that pod. The two fields \<open>iteration\<close> and \<open>podRun\<close> are only written to stamp the
  trace; no function below reads them to decide anything.
\<close>

record 'w state =
  world :: 'w
  iteration :: nat
  podRun :: "string option"
  trace :: "(nat \<times> string option \<times> call) list"

definition emit :: "call \<Rightarrow> 'w state \<Rightarrow> 'w state" where
  "emit c st = st\<lparr>trace := trace st @ [(iteration st, podRun st, c)]\<rparr>"

definition perform :: "call \<Rightarrow> ('w \<Rightarrow> 'a \<times> 'w) \<Rightarrow> 'w state \<Rightarrow> 'a \<times> 'w state" where
  "perform c f st = (case f (world st) of (r, w') \<Rightarrow> (r, emit c (st\<lparr>world := w'\<rparr>)))"

text \<open>The endless \<open>for\<close> loop of \<open>waitForContainerToStart\<close>: sleep a second, get the pod
  again, return on an error or once the container has started.\<close>

fun waitLoop ::
  "'w env \<Rightarrow> string \<Rightarrow> string \<Rightarrow> nat \<Rightarrow> nat \<Rightarrow> 'w state \<Rightarrow> (Pod option \<times> error option) outcome \<times> 'w state" where
  "waitLoop env ns name idx 0 st = (OutOfFuel, st)"
| "waitLoop env ns name idx (Suc fuel) st =
     (case perform (CallPodsGet ns name) (PodsGet env ns name) (emit CallSleep st) of
        ((p, Some err), st1) \<Rightarrow> (Returned (p, Some (Wrapf err (''failed to load pod '' @ name))), st1)
      | ((p, None), st1) \<Rightarrow>
          if HasContainerStarted env p idx then (Returned (p, None), st1)
          else waitLoop env ns name idx fuel st1)"

definition waitingLine :: "'w env \<Rightarrow> Pod \<Rightarrow> nat \<Rightarrow> string" where
  "waitingLine env pod idx =
     (let containers = GetContainersWithStatusAndIsInit env pod;
          containerName = (if idx < length containers then c_Name (containers ! idx) else [])
      in ''waiting for pod '' @ colorSprintf env (pod_Name pod) @ '' container '' @
         colorSprintf env containerName @ '' to start...'' @ [CHR 0x0A])"

definition waitForContainerToStart ::
  "'w env \<Rightarrow> string \<Rightarrow> Pod option \<Rightarrow> nat \<Rightarrow> 'w LogWriter \<Rightarrow> nat \<Rightarrow> 'w state
     \<Rightarrow> (Pod option \<times> error option) outcome \<times> 'w state" where
  "waitForContainerToStart env ns pod idx logWriter fuel st =
     (case pod of
        None \<Rightarrow> (Panicked, st)
      | Some pd \<Rightarrow>
          if pod_Phase pd = PodFailed
          then (Returned (pod, None), emit (CallWarnf (''pod '' @ pod_Name pd @ '' has failed'')) st)
          else if HasContainerStarted env pod idx then (Returned (pod, None), st)
          else (case perform (CallWriteLog (waitingLine env pd idx))
                       (WriteLog logWriter (waitingLine env pd idx)) st of
                  (Some err, st1) \<Rightarrow>
                    waitLoop env ns (pod_Name pd) idx fuel
                      (emit (CallWarnf ''There was a problem writing a single line into the writeFN'') st1)
                | (None, st1) \<Rightarrow> waitLoop env ns (pod_Name pd) idx fuel st1))"

definition headerLine :: "'w env \<Rightarrow> string \<Rightarrow> string \<Rightarrow> Container \<Rightarrow> string" where
  "headerLine env buildName stageName ic =
     ''Showing logs for build '' @ colorSprintf env buildName @ '' stage '' @
     colorSprintf env stageName @ '' and container '' @ colorSprintf env (c_Name ic) @ [CHR 0x0A]"

text \<open>
  The loop over the containers of a selected pod. The error of \<open>waitForContainerToStart\<close>
  is assigned to \<open>err\<close> and overwritten by the result of \<open>WriteLog\<close> before anything reads
  it; the pod it returns replaces the loop's pod, nil included. The result \<open>Returned None\<close>
  is the end of the loop, \<open>Returned (Some e)\<close> a \<open>return e\<close> of \<open>GetRunningBuildLogs\<close>.
\<close>

fun streamContainers ::
  "'w env \<Rightarrow> 'w LogWriter \<Rightarrow> PipelineActivity \<Rightarrow> string \<Rightarrow> string \<Rightarrow> nat \<Rightarrow> Pod option \<Rightarrow> nat
     \<Rightarrow> Container list \<Rightarrow> 'w state \<Rightarrow> error option outcome \<times> 'w state" where
  "streamContainers env writer pa buildName stageName fuel pod i [] st = (Returned None, st)"
| "streamContainers env writer pa buildName stageName fuel pod i (ic # ics) st =
     (case waitForContainerToStart env (pa_Namespace pa) pod i writer fuel st of
        (Returned (pod', err), st1) \<Rightarrow>
          (case perform (CallWriteLog (headerLine env buildName stageName ic))
                  (WriteLog writer (headerLine env buildName stageName ic)) st1 of
             (Some e, st2) \<Rightarrow>
               (Returned (Some (Wrapf e ''there was a problem writing a single line into the logs writer'')), st2)
           | (None, st2) \<Rightarrow>
               (case perform (CallStreamLog (pa_Namespace pa) pod' ic)
                       (StreamLog writer (pa_Namespace pa) pod' ic) st2 of
                  (Some e, st3) \<Rightarrow>
                    (Returned (Some (Wrapf e ''there was a problem writing into the stream writer'')), st3)
                | (None, st3) \<Rightarrow>
                    streamContainers env writer pa buildName stageName fuel pod' (Suc i) ics st3))
      | (Panicked, st1) \<Rightarrow> (Panicked, st1)
      | (OutOfFuel, st1) \<Rightarrow> (OutOfFuel, st1))"

text \<open>The part of the selection predicate that compares the pod with the activity.\<close>

definition podBelongs :: "'w env \<Rightarrow> PipelineActivity \<Rightarrow> Pod \<Rightarrow> bool" where
  "podBelongs env pa pod =
     (let params = CreateBuildPodInfo env pod
      in Organisation params = GitOwner (pa_Spec pa) \<and> Repository params = GitRepository (pa_Spec pa) \<and>
         ToLower env (Branch params) = ToLower env (GitBranch (pa_Spec pa)) \<and>
         Build' params = Build (pa_Spec pa))"

definition podRunName :: "'w env \<Rightarrow> Pod \<Rightarrow> string" where
  "podRunName env pod = label (pod_Labels pod) (LabelPipelineRunName env)"

text \<open>
  The loop over the sorted pods of one iteration, on the pair
  (\<open>runsSeenForPods\<close>, \<open>foundLogs\<close>). \<open>Returned (Inr acc)\<close> is the end of the loop,
  \<open>Returned (Inl e)\<close> a \<open>return e\<close> of \<open>GetRunningBuildLogs\<close>. The maps of run names are
  association lists with one entry per key, so that \<open>len\<close> is the length.
\<close>

fun streamPods ::
  "'w env \<Rightarrow> 'w LogWriter \<Rightarrow> PipelineActivity \<Rightarrow> string \<Rightarrow> nat \<Rightarrow> (string \<times> bool) list \<Rightarrow> Pod list
     \<Rightarrow> (string \<times> bool) list \<times> bool \<Rightarrow> 'w state
     \<Rightarrow> (error + (string \<times> bool) list \<times> bool) outcome \<times> 'w state" where
  "streamPods env writer pa buildName fuel pipelineRunsLogged [] acc st = (Returned (Inr acc), st)"
| "streamPods env writer pa buildName fuel pipelineRunsLogged (pod # pods) acc st =
     (let stageName = label (pod_Labels pod) ''jenkins.io/task-stage-name'';
          pipelineRun = podRunName env pod;
          seen = (map_of pipelineRunsLogged pipelineRun \<noteq> None)
      in if \<not> seen \<and> podBelongs env pa pod
         then (case streamContainers env writer pa buildName stageName fuel (Some pod) 0
                      (GetContainersWithStatusAndIsInit env pod) (st\<lparr>podRun := Some pipelineRun\<rparr>) of
                 (Returned None, st1) \<Rightarrow>
                   streamPods env writer pa buildName fuel pipelineRunsLogged pods
                     (AList.update pipelineRun True (fst acc), True) (st1\<lparr>podRun := None\<rparr>)
               | (Returned (Some e), st1) \<Rightarrow> (Returned (Inl e), st1)
               | (Panicked, st1) \<Rightarrow> (Panicked, st1)
               | (OutOfFuel, st1) \<Rightarrow> (OutOfFuel, st1))
         else streamPods env writer pa buildName fuel pipelineRunsLogged pods acc st)"

text \<open>The label selector of \<open>getPipelineRunNamesForActivity\<close>: its four filters, joined
  by commas.\<close>

definition runSelector :: "PipelineActivity \<Rightarrow> string" where
  "runSelector pa =
     Join [''owner='' @ GitOwner (pa_Spec pa), ''repo='' @ GitRepository (pa_Spec pa),
           ''branch='' @ GitBranch (pa_Spec pa), ''build='' @ Build (pa_Spec pa)] '',''"

definition getPipelineRunNamesForActivity ::
  "'w env \<Rightarrow> PipelineActivity \<Rightarrow> 'w state \<Rightarrow> (string list \<times> error option) outcome \<times> 'w state" where
  "getPipelineRunNamesForActivity env pa st =
     (case perform (CallPipelineRunsList (pa_Namespace pa) (runSelector pa))
             (PipelineRunsList env (pa_Namespace pa) (runSelector pa)) st of
        ((tektonPRs, Some err), st1) \<Rightarrow> (Returned ([], Some err), st1)
      | ((None, None), st1) \<Rightarrow> (Panicked, st1)
      | ((Some prs, None), st1) \<Rightarrow> (Returned (map pr_Name prs, None), st1))"

text \<open>\<open>for k, v := range runsSeenForPods { pipelineRunsLogged[k] = v }\<close>\<close>

definition mergeLogged :: "(string \<times> bool) list \<Rightarrow> (string \<times> bool) list \<Rightarrow> (string \<times> bool) list" where
  "mergeLogged runsSeenForPods pipelineRunsLogged =
     fold (\<lambda>(k, v) m. AList.update k v m) runsSeenForPods pipelineRunsLogged"

definition garbageCollected :: error where
  "garbageCollected = Error ''the build pods for this build have been garbage collected and the log was not found in the long term storage bucket''"

definition afterLoop :: "bool \<Rightarrow> error option" where
  "afterLoop foundLogs = (if \<not> foundLogs then Some garbageCollected else None)"

definition namesError :: "PipelineActivity \<Rightarrow> error \<Rightarrow> error" where
  "namesError pa err =
     Wrapf err (''failed to get PipelineRun names for activity '' @ pa_Name pa @ '' in namespace '' @
                pa_Namespace pa)"

text \<open>
  One pass of the loop \<open>for len(pipelineRunNames) > len(pipelineRunsLogged)\<close>, from the
  listing of the pods to the merge into \<open>pipelineRunsLogged\<close>. \<open>Inl r\<close> is a \<open>return r\<close>,
  \<open>Inr\<close> the variables (\<open>pipelineRunNames\<close>, \<open>pipelineRunsLogged\<close>, \<open>foundLogs\<close>) for the
  next test of the loop condition.
\<close>

definition loopBody ::
  "'w env \<Rightarrow> 'w LogWriter \<Rightarrow> PipelineActivity \<Rightarrow> string \<Rightarrow> nat \<Rightarrow> (string \<times> bool) list \<Rightarrow> bool \<Rightarrow> 'w state
     \<Rightarrow> (error + string list \<times> (string \<times> bool) list \<times> bool) outcome \<times> 'w state" where
  "loopBody env writer pa buildName fuel pipelineRunsLogged foundLogs st =
     (case perform (CallGetBuildPods (pa_Namespace pa)) (GetBuildPods env (pa_Namespace pa))
             (st\<lparr>iteration := Suc (iteration st)\<rparr>) of
        ((pods, Some err), st1) \<Rightarrow>
          (Returned (Inl (Wrapf err (''failed to get build pods in namespace '' @ pa_Namespace pa))), st1)
      | ((pods, None), st1) \<Rightarrow>
          (case streamPods env writer pa buildName fuel pipelineRunsLogged
                  (sortSlicePods env (\<lambda>a b. pod_CreationTimestamp a < pod_CreationTimestamp b) pods)
                  ([], foundLogs) st1 of
             (Returned (Inl e), st2) \<Rightarrow> (Returned (Inl e), st2)
           | (Returned (Inr (runsSeenForPods, foundLogs')), st2) \<Rightarrow>
               (case getPipelineRunNamesForActivity env pa st2 of
                  (Returned (names, Some err), st3) \<Rightarrow> (Returned (Inl (namesError pa err)), st3)
                | (Returned (names, None), st3) \<Rightarrow>
                    (Returned (Inr (names, mergeLogged runsSeenForPods pipelineRunsLogged, foundLogs')), st3)
                | (Panicked, st3) \<Rightarrow> (Panicked, st3)
                | (OutOfFuel, st3) \<Rightarrow> (OutOfFuel, st3))
           | (Panicked, st2) \<Rightarrow> (Panicked, st2)
           | (OutOfFuel, st2) \<Rightarrow> (OutOfFuel, st2)))"

text \<open>The loop. \<open>pollFuel\<close> bounds every wait for a container, \<open>fuel\<close> the number of passes
  still allowed; the loop condition is tested before a pass is started.\<close>

fun logLoop ::
  "'w env \<Rightarrow> 'w LogWriter \<Rightarrow> PipelineActivity \<Rightarrow> string \<Rightarrow> nat \<Rightarrow> nat
     \<Rightarrow> string list \<times> (string \<times> bool) list \<times> bool \<Rightarrow> 'w state \<Rightarrow> error option outcome \<times> 'w state" where
  "logLoop env writer pa buildName pollFuel 0 (pipelineRunNames, pipelineRunsLogged, foundLogs) st =
     (if length pipelineRunNames > length pipelineRunsLogged then (OutOfFuel, st)
      else (Returned (afterLoop foundLogs), st))"
| "logLoop env writer pa buildName pollFuel (Suc fuel) (pipelineRunNames, pipelineRunsLogged, foundLogs) st =
     (if length pipelineRunNames > length pipelineRunsLogged
      then (case loopBody env writer pa buildName pollFuel pipelineRunsLogged foundLogs st of
              (Returned (Inl e), st1) \<Rightarrow> (Returned (Some e), st1)
            | (Returned (Inr vars), st1) \<Rightarrow> logLoop env writer pa buildName pollFuel fuel vars st1
            | (Panicked, st1) \<Rightarrow> (Panicked, st1)
            | (OutOfFuel, st1) \<Rightarrow> (OutOfFuel, st1))
      else (Returned (afterLoop foundLogs), st))"

text \<open>\<open>GetRunningBuildLogs\<close>; every loop of the call may run \<open>fuel\<close> times.\<close>

definition GetRunningBuildLogs ::
  "'w env \<Rightarrow> PipelineActivity \<Rightarrow> string \<Rightarrow> 'w LogWriter \<Rightarrow> nat \<Rightarrow> 'w state \<Rightarrow> error option outcome \<times> 'w state" where
  "GetRunningBuildLogs env pa buildName writer fuel st =
     (case getPipelineRunNamesForActivity env pa st of
        (Returned (names, Some err), st1) \<Rightarrow> (Returned (Some (namesError pa err)), st1)
      | (Returned (names, None), st1) \<Rightarrow> logLoop env writer pa buildName fuel fuel (names, [], False) st1
      | (Panicked, st1) \<Rightarrow> (Panicked, st1)
      | (OutOfFuel, st1) \<Rightarrow> (OutOfFuel, st1))"

text \<open>The state a call starts in: nothing recorded yet.\<close>

definition initial :: "'w \<Rightarrow> 'w state" where
  "initial w = \<lparr>world = w, iteration = 0, podRun = None, trace = []\<rparr>"

section \<open>Reading the persisted logs\<close>


text \<open>\<open>StreamPipelinePersistentLogs\<close>: the bucket is read with a limit of 20 seconds; the
  function \<open>httpFn\<close> built from the options is only ever run by \<open>buckets.ReadURL\<close>, so what it
  does is part of the answer of \<open>ReadURL\<close>.\<close>

definition StreamPipelinePersistentLogs ::
  "'w env \<Rightarrow> 'w LogWriter \<Rightarrow> string \<Rightarrow> 'w state \<Rightarrow> error option \<times> 'w state" where
  "StreamPipelinePersistentLogs env logWriter logsURL st =
     (case perform (CallReadURL logsURL 20) (ReadURL env logsURL 20) st of
        ((data, Some err), st1) \<Rightarrow> (Some err, st1)
      | ((data, None), st1) \<Rightarrow> perform (CallWriteLog data) (WriteLog logWriter data) st1)"

section \<open>What the properties speak of\<close>

text \<open>
  What the trace says about streaming. \<open>streamedRuns\<close> lists, for every \<open>StreamLog\<close> call
  of a trace, the loop iteration it was made in and the pipeline-run label of the pod that
  was being processed. A trace is \<open>streamedOnce\<close> when all the \<open>StreamLog\<close> calls for one
  run label were made in one and the same iteration.
\<close>

fun isStreamLog :: "call \<Rightarrow> bool" where
  "isStreamLog (CallStreamLog ns pod c) = True"
| "isStreamLog other = False"

definition streamedRuns :: "(nat \<times> string option \<times> call) list \<Rightarrow> (nat \<times> string option) list" where
  "streamedRuns tr = map (\<lambda>e. (fst e, fst (snd e))) (filter (\<lambda>e. isStreamLog (snd (snd e))) tr)"

definition streamedOnce :: "(nat \<times> string option \<times> call) list \<Rightarrow> bool" where
  "streamedOnce tr =
     (\<forall>a \<in> set (streamedRuns tr). \<forall>b \<in> set (streamedRuns tr). snd a = snd b \<longrightarrow> fst a = fst b)"

text \<open>The calls of a trace without their stamps, and whether the text of an error
  contains a given string.\<close>

definition callsOf :: "'w state \<Rightarrow> call list" where
  "callsOf st = map (\<lambda>e. snd (snd e)) (trace st)"


text \<open>
  What the matcher names. \<open>activityNames\<close> are the canonical names of the listed activities
  (the keys of the map before the runs are looked at); \<open>firstRuns env D prs\<close> are the runs
  of \<open>prs\<close> whose canonical name is in \<open>D\<close>, each the first of its name in \<open>prs\<close>, in the order
  of \<open>prs\<close>; \<open>noClash\<close> says that no enriched name of a run is the canonical name of a run.
\<close>

function firstOfKey :: "('a \<Rightarrow> 'k) \<Rightarrow> 'a list \<Rightarrow> 'a list" where
  "firstOfKey f [] = []"
| "firstOfKey f (x # xs) = x # firstOfKey f (filter (\<lambda>y. f y \<noteq> f x) xs)"
  by pat_completeness auto
termination
  by (relation "measure (\<lambda>p. length (snd p))") (auto simp: less_Suc_eq_le)

definition activityNames :: "'w env \<Rightarrow> PipelineActivity list \<Rightarrow> string set" where
  "activityNames env pas =
     (\<lambda>p. createPipelineActivityName env (pa_Labels p) (Build (pa_Spec p))) ` set pas"

definition firstRuns :: "'w env \<Rightarrow> string set \<Rightarrow> PipelineRun list \<Rightarrow> PipelineRun list" where
  "firstRuns env D prs =
     firstOfKey (pipelineRunActivityName env) (filter (\<lambda>pr. pipelineRunActivityName env pr \<in> D) prs)"

definition noClash :: "'w env \<Rightarrow> PipelineRun list \<Rightarrow> bool" where
  "noClash env prs =
     (\<forall>a \<in> set prs. \<forall>b \<in> set prs. nameWithContext env a \<noteq> pipelineRunActivityName env b)"

text \<open>The writer accepts every call.\<close>

definition accepts :: "'w LogWriter \<Rightarrow> bool" where
  "accepts writer =
     ((\<forall>line w. fst (WriteLog writer line w) = None) \<and>
      (\<forall>ns pod c w. fst (StreamLog writer ns pod c w) = None))"

text \<open>
  The platform as a call sees it while no pod is selected: after the first query for the
  runs, each pass of the loop lists the pods and queries the runs again. \<open>idleWorld k\<close> is
  the state of the platform at the \<open>k\<close>-th test of the loop condition (counted from 0),
  \<open>idleNames k\<close> the answer to the query made just before that test, and \<open>idlePods k\<close> the
  answer to the listing of the pods in the pass that follows it.
\<close>

fun idleWorld :: "'w env \<Rightarrow> PipelineActivity \<Rightarrow> nat \<Rightarrow> 'w \<Rightarrow> 'w" where
  "idleWorld env pa 0 w = snd (PipelineRunsList env (pa_Namespace pa) (runSelector pa) w)"
| "idleWorld env pa (Suc k) w =
     snd (PipelineRunsList env (pa_Namespace pa) (runSelector pa)
            (snd (GetBuildPods env (pa_Namespace pa) (idleWorld env pa k w))))"

fun idleNames :: "'w env \<Rightarrow> PipelineActivity \<Rightarrow> nat \<Rightarrow> 'w \<Rightarrow> PipelineRun list option \<times> error option" where
  "idleNames env pa 0 w = fst (PipelineRunsList env (pa_Namespace pa) (runSelector pa) w)"
| "idleNames env pa (Suc k) w =
     fst (PipelineRunsList env (pa_Namespace pa) (runSelector pa)
            (snd (GetBuildPods env (pa_Namespace pa) (idleWorld env pa k w))))"

definition idlePods :: "'w env \<Rightarrow> PipelineActivity \<Rightarrow> nat \<Rightarrow> 'w \<Rightarrow> Pod list \<times> error option" where
  "idlePods env pa k w = fst (GetBuildPods env (pa_Namespace pa) (idleWorld env pa k w))"

text \<open>The state in which the loop is entered: the first query for the runs is the only
  call made so far.\<close>

definition afterFirstQuery :: "'w env \<Rightarrow> PipelineActivity \<Rightarrow> 'w \<Rightarrow> 'w state" where
  "afterFirstQuery env pa w =
     emit (CallPipelineRunsList (pa_Namespace pa) (runSelector pa))
       ((initial w)\<lparr>world := snd (PipelineRunsList env (pa_Namespace pa) (runSelector pa) w)\<rparr>)"

section \<open>Invariants of the trace\<close>

text \<open>\<open>stamps st st'\<close>: from \<open>st\<close> to \<open>st'\<close> calls were only added to the trace, all stamped
  with the iteration and the run label of \<open>st\<close>, which are unchanged. \<open>adds ok st st'\<close>: the
  same for the iteration alone, every added \<open>StreamLog\<close> call being stamped with a run
  label that satisfies \<open>ok\<close>.\<close>

definition stamps :: "'w state \<Rightarrow> 'w state \<Rightarrow> bool" where
  "stamps st st' =
     (iteration st' = iteration st \<and> podRun st' = podRun st \<and>
      (\<exists>new. trace st' = trace st @ new \<and>
             (\<forall>e \<in> set new. fst e = iteration st \<and> fst (snd e) = podRun st)))"

definition adds :: "(string \<Rightarrow> bool) \<Rightarrow> 'w state \<Rightarrow> 'w state \<Rightarrow> bool" where
  "adds ok st st' =
     (iteration st' = iteration st \<and>
      (\<exists>new. trace st' = trace st @ new \<and>
             (\<forall>e \<in> set new. fst e = iteration st \<and>
                (isStreamLog (snd (snd e)) \<longrightarrow> (\<exists>run. fst (snd e) = Some run \<and> ok run)))))"

text \<open>The invariant of the loop on the trace: the \<open>StreamLog\<close> calls made so far are
  \<open>streamedOnce\<close>, each is for a run label of the given set (the keys of \<open>pipelineRunsLogged\<close>), and no call
  is stamped with an iteration later than the current one.\<close>

definition tracked :: "string set \<Rightarrow> 'w state \<Rightarrow> bool" where
  "tracked logged st =
     (streamedOnce (trace st) \<and>
      (\<forall>e \<in> set (trace st). fst e \<le> iteration st \<and>
         (isStreamLog (snd (snd e)) \<longrightarrow> (\<exists>run. fst (snd e) = Some run \<and> run \<in> logged))))"

section \<open>A scripted platform\<close>

text \<open>
  An instance of the environment to run the functions on concrete inputs. Its platform
  state is the number of client calls answered so far, and a script gives the answer of
  each client at each count. The helpers are instantiated as follows: the labels are
  \<open>owner\<close>, \<open>repository\<close>, \<open>branch\<close>, \<open>build\<close> and \<open>tekton.dev/pipelineRun\<close>; \<open>ToLower\<close>
  lowers the ASCII letters; \<open>sort.Slice\<close> is an insertion sort; the colour printer leaves
  the text as it is; the information of a build pod is read from its labels; the
  containers of a pod are its init containers followed by its containers, and a container
  has started when its status is no longer waiting.
\<close>

definition asciiLower :: "string \<Rightarrow> string" where
  "asciiLower s =
     map (\<lambda>c. if 65 \<le> (of_char c :: nat) \<and> (of_char c :: nat) \<le> 90
               then char_of ((of_char c :: nat) + 32) else c) s"

fun insertBy :: "('a \<Rightarrow> 'a \<Rightarrow> bool) \<Rightarrow> 'a \<Rightarrow> 'a list \<Rightarrow> 'a list" where
  "insertBy lt x [] = [x]"
| "insertBy lt x (y # ys) = (if lt x y then x # y # ys else y # insertBy lt x ys)"

definition insertionSort :: "('a \<Rightarrow> 'a \<Rightarrow> bool) \<Rightarrow> 'a list \<Rightarrow> 'a list" where
  "insertionSort lt xs = foldl (\<lambda>sorted x. insertBy lt x sorted) [] xs"

record script =
  activitiesAt :: "nat \<Rightarrow> PipelineActivity list option \<times> error option"
  runsAt :: "nat \<Rightarrow> PipelineRun list option \<times> error option"
  podsAt :: "nat \<Rightarrow> Pod list \<times> error option"
  podAt :: "nat \<Rightarrow> string \<Rightarrow> Pod option \<times> error option"
  readAt :: "nat \<Rightarrow> string \<Rightarrow> string \<times> error option"

definition statusStarted :: "Pod option \<Rightarrow> nat \<Rightarrow> bool" where
  "statusStarted pod idx =
     (case pod of
        None \<Rightarrow> False
      | Some pd \<Rightarrow>
          (let statuses = pod_InitContainerStatuses pd @ pod_ContainerStatuses pd
           in idx < length statuses \<and> cs_State (statuses ! idx) \<noteq> Waiting))"

definition labelPodInfo :: "Pod \<Rightarrow> BuildPodInfo" where
  "labelPodInfo pod =
     \<lparr>Organisation = label (pod_Labels pod) ''owner'',
      Repository = label (pod_Labels pod) ''repository'',
      Branch = label (pod_Labels pod) ''branch'',
      Build' = label (pod_Labels pod) ''build''\<rparr>"

definition scripted :: "script \<Rightarrow> nat env" where
  "scripted sc =
     \<lparr>LabelOwner = ''owner'', LabelRepository = ''repository'', LabelBranch = ''branch'',
      LabelBuild = ''build'', LabelPipelineRunName = ''tekton.dev/pipelineRun'',
      ToLower = asciiLower, colorSprintf = (\<lambda>s. s),
      sortSlicePipelineRuns = insertionSort, sortSlicePods = insertionSort,
      PipelineActivitiesList = (\<lambda>ns selector n. (activitiesAt sc n, Suc n)),
      PipelineRunsList = (\<lambda>ns selector n. (runsAt sc n, Suc n)),
      GetBuildPods = (\<lambda>ns n. (podsAt sc n, Suc n)),
      PodsGet = (\<lambda>ns name n. (podAt sc n name, Suc n)),
      CreateBuildPodInfo = labelPodInfo,
      GetContainersWithStatusAndIsInit = (\<lambda>pod. pod_InitContainers pod @ pod_Containers pod),
      HasContainerStarted = statusStarted,
      ReadURL = (\<lambda>url limit n. (readAt sc n url, Suc n))\<rparr>"

text \<open>A writer that accepts everything.\<close>

definition quietWriter :: "'w LogWriter" where
  "quietWriter = \<lparr>WriteLog = (\<lambda>line w. (None, w)), StreamLog = (\<lambda>ns pod c w. (None, w))\<rparr>"

text \<open>The activity, runs and pods of the examples: build 7 of \<open>acme/widgets\<close> on \<open>master\<close>.\<close>

definition widgetsLabels :: Labels where
  "widgetsLabels = [(''owner'', ''acme''), (''repository'', ''widgets''), (''branch'', ''master'')]"

definition widgets7 :: PipelineActivity where
  "widgets7 =
     \<lparr>pa_Name = ''acme-widgets-master-7'', pa_Namespace = ''jx'',
      pa_Labels = widgetsLabels,
      pa_Spec = \<lparr>Build = ''7'', GitOwner = ''acme'', GitRepository = ''widgets'', GitBranch = ''master''\<rparr>\<rparr>"

definition runOf :: "string \<Rightarrow> string \<Rightarrow> Time \<Rightarrow> PipelineRun" where
  "runOf name ctx created =
     \<lparr>pr_Name = name,
      pr_Labels = [(''owner'', ''acme''), (''repo'', ''widgets''), (''branch'', ''master''),
                   (''build'', ''7''), (''context'', ctx)],
      pr_CreationTimestamp = created, pr_Params = []\<rparr>"

definition podOf :: "string \<Rightarrow> string \<Rightarrow> Time \<Rightarrow> PodPhase \<Rightarrow> ContainerState \<Rightarrow> Pod" where
  "podOf name run created phase st =
     \<lparr>pod_Name = name,
      pod_Labels = widgetsLabels @ [(''build'', ''7''), (''tekton.dev/pipelineRun'', run),
                                    (''jenkins.io/task-stage-name'', ''ci'')],
      pod_CreationTimestamp = created, pod_Phase = phase,
      pod_InitContainers = [],
      pod_Containers = [\<lparr>c_Name = ''build''\<rparr>, \<lparr>c_Name = ''test''\<rparr>],
      pod_InitContainerStatuses = [],
      pod_ContainerStatuses = [\<lparr>cs_Name = ''build'', cs_State = st\<rparr>, \<lparr>cs_Name = ''test'', cs_State = st\<rparr>]\<rparr>"

definition noScript :: script where
  "noScript =
     \<lparr>activitiesAt = (\<lambda>n. (Some [], None)), runsAt = (\<lambda>n. (Some [], None)), podsAt = (\<lambda>n. ([], None)),
      podAt = (\<lambda>n name. (None, Some (Error ''not found''))), readAt = (\<lambda>n url. ([], None))\<rparr>"

section \<open>The inputs of the examples\<close>

text \<open>Two runs of build 7 with different contexts, and the activity of the build.\<close>

definition sameKeyRuns :: script where
  "sameKeyRuns =
     noScript\<lparr>activitiesAt := (\<lambda>n. (Some [widgets7], None)),
              runsAt := (\<lambda>n. (Some [runOf ''run1'' ''integration'' 10, runOf ''run2'' ''pr-build'' 20], None))\<rparr>"

text \<open>Runs of the builds 7, 8 and 9, listed out of order, two of them of build 8, and the
  activities of the builds 7 and 8.\<close>

definition runOfBuild :: "string \<Rightarrow> string \<Rightarrow> string \<Rightarrow> Time \<Rightarrow> PipelineRun" where
  "runOfBuild name build ctx created =
     \<lparr>pr_Name = name,
      pr_Labels = [(''owner'', ''acme''), (''repo'', ''widgets''), (''branch'', ''master''),
                   (''build'', build), (''context'', ctx)],
      pr_CreationTimestamp = created, pr_Params = []\<rparr>"

definition widgets8 :: PipelineActivity where
  "widgets8 = widgets7\<lparr>pa_Name := ''acme-widgets-master-8'', pa_Spec := (pa_Spec widgets7)\<lparr>Build := ''8''\<rparr>\<rparr>"

definition severalBuilds :: script where
  "severalBuilds =
     noScript\<lparr>activitiesAt := (\<lambda>n. (Some [widgets7, widgets8], None)),
              runsAt := (\<lambda>n. (Some [runOfBuild ''run-a'' ''7'' ''ci'' 10,
                                       runOfBuild ''run-b'' ''9'' ''ci'' 15,
                                       runOfBuild ''run-c'' ''8'' ''ci'' 20,
                                       runOfBuild ''run-d'' ''8'' ''nightly'' 5], None))\<rparr>"

text \<open>A run that carries its build number as the parameter \<open>build_id\<close>, one that carries it
  as a label, and the activity of that build.\<close>

definition legacyRun :: PipelineRun where
  "legacyRun =
     \<lparr>pr_Name = ''legacy-run'',
      pr_Labels = [(''owner'', ''acme''), (''repo'', ''widgets''), (''branch'', ''master''), (''context'', ''ci'')],
      pr_CreationTimestamp = 3,
      pr_Params = [\<lparr>param_Name = ''version'', param_Value = ''0.0.1''\<rparr>,
                   \<lparr>param_Name = ''build_id'', param_Value = ''42''\<rparr>]\<rparr>"

definition modernRun :: PipelineRun where
  "modernRun =
     \<lparr>pr_Name = ''modern-run'',
      pr_Labels = [(''owner'', ''acme''), (''repo'', ''widgets''), (''branch'', ''master''), (''context'', ''ci''),
                   (''build'', ''42'')],
      pr_CreationTimestamp = 4, pr_Params = []\<rparr>"

definition widgets42 :: PipelineActivity where
  "widgets42 = widgets7\<lparr>pa_Name := ''acme-widgets-master-42'', pa_Spec := (pa_Spec widgets7)\<lparr>Build := ''42''\<rparr>\<rparr>"

text \<open>A query for the runs that fails, with an empty list or with no list at all, and a
  pod query that fails while a container is awaited.\<close>

definition failingRunsList :: script where
  "failingRunsList =
     noScript\<lparr>activitiesAt := (\<lambda>n. (Some [widgets7], None)),
              runsAt := (\<lambda>n. (Some [], Some (Error ''etcdserver: request timed out'')))\<rparr>"

definition failingRunsListNil :: script where
  "failingRunsListNil =
     noScript\<lparr>activitiesAt := (\<lambda>n. (Some [widgets7], None)),
              runsAt := (\<lambda>n. (None, Some (Error ''etcdserver: request timed out'')))\<rparr>"

definition failingPodGet :: script where
  "failingPodGet =
     noScript\<lparr>runsAt := (\<lambda>n. (Some [runOf ''run1'' ''ci'' 5], None)),
              podsAt := (\<lambda>n. ([podOf ''pod1'' ''run1'' 6 PodPending Waiting], None)),
              podAt := (\<lambda>n name. (Some (podOf ''pod1'' ''run1'' 6 PodPending Waiting),
                                     Some (Error ''etcdserver: request timed out'')))\<rparr>"

text \<open>Two runs; the pod of the second appears only at the second listing of the pods.\<close>

definition secondRunLater :: script where
  "secondRunLater =
     noScript\<lparr>runsAt := (\<lambda>n. (Some [runOf ''run1'' ''ci'' 5, runOf ''run2'' ''ci'' 8], None)),
              podsAt := (\<lambda>n. (if n \<le> 1 then [podOf ''pod1'' ''run1'' 6 PodRunning Running]
                                else [podOf ''pod2'' ''run2'' 9 PodRunning Running,
                                      podOf ''pod1'' ''run1'' 6 PodRunning Running], None))\<rparr>"


text \<open>A failed pod whose containers never started.\<close>

definition failedPod :: script where
  "failedPod =
     noScript\<lparr>runsAt := (\<lambda>n. (Some [runOf ''run1'' ''ci'' 5], None)),
              podsAt := (\<lambda>n. ([podOf ''pod1'' ''run1'' 6 PodFailed Waiting], None))\<rparr>"

text \<open>No pod at all: the run is gone at the second query, or stays listed for ever.\<close>

definition runsGone :: script where
  "runsGone = noScript\<lparr>runsAt := (\<lambda>n. (Some (if n = 0 then [runOf ''run1'' ''ci'' 5] else []), None))\<rparr>"

definition runStays :: script where
  "runStays = noScript\<lparr>runsAt := (\<lambda>n. (Some [runOf ''run1'' ''ci'' 5], None))\<rparr>"

text \<open>Two runs whose pods have all their containers started or terminated.\<close>

definition allStarted :: script where
  "allStarted =
     noScript\<lparr>runsAt := (\<lambda>n. (Some [runOf ''run1'' ''ci'' 5, runOf ''run2'' ''ci'' 8], None)),
              podsAt := (\<lambda>n. ([podOf ''pod2'' ''run2'' 9 PodRunning Running,
                                 podOf ''pod1'' ''run1'' 6 PodSucceeded Terminated], None))\<rparr>"

text \<open>The same two runs and pods, and a third started pod of the build whose run
  \<open>run0\<close> is no longer listed.\<close>

definition staleRunPod :: script where
  "staleRunPod =
     noScript\<lparr>runsAt := (\<lambda>n. (Some [runOf ''run1'' ''ci'' 5, runOf ''run2'' ''ci'' 8], None)),
              podsAt := (\<lambda>n. ([podOf ''pod2'' ''run2'' 9 PodRunning Running,
                                 podOf ''pod1'' ''run1'' 6 PodSucceeded Terminated,
                                 podOf ''pod0'' ''run0'' 3 PodSucceeded Terminated], None))\<rparr>"

section \<open>Properties of the matcher\<close>

lemma subseq_set_subset: "subseq xs ys \<Longrightarrow> set xs \<subseteq> set ys"
  by (induction rule: list_emb.induct) auto

lemma sorted_wrt_subseq_local: "subseq xs ys \<Longrightarrow> sorted_wrt P ys \<Longrightarrow> sorted_wrt P xs"
proof (induction rule: list_emb.induct)
  case (list_emb_Nil ys)
  then show ?case by simp
next
  case (list_emb_Cons xs ys y)
  then show ?case by simp
next
  case (list_emb_Cons2 x y xs ys)
  from list_emb_Cons2.hyps(2) have "set xs \<subseteq> set ys" by (rule subseq_set_subset)
  moreover from list_emb_Cons2 have "sorted_wrt P xs" by simp
  moreover from list_emb_Cons2 have "\<forall>z \<in> set ys. P x z" by simp
  ultimately show ?case by (simp add: subset_iff)
qed

lemma mset_insertBy: "mset (insertBy lt x ys) = add_mset x (mset ys)"
  by (induction ys) auto

lemma mset_foldl_insertBy:
  "mset (foldl (\<lambda>sorted x. insertBy lt x sorted) acc xs) = mset acc + mset xs"
  by (induction xs arbitrary: acc) (auto simp: mset_insertBy)

lemma set_insertBy: "set (insertBy lt x ys) = insert x (set ys)"
  by (induction ys) auto

lemma sorted_insertBy:
  assumes tr: "\<And>a b c. \<not> lt b a \<Longrightarrow> \<not> lt c b \<Longrightarrow> \<not> lt c a"
    and asym: "\<And>a b. lt a b \<Longrightarrow> \<not> lt b a"
  shows "sorted_wrt (\<lambda>a b. \<not> lt b a) ys \<Longrightarrow> sorted_wrt (\<lambda>a b. \<not> lt b a) (insertBy lt x ys)"
proof (induction ys)
  case Nil
  show ?case by simp
next
  case (Cons y ys)
  show ?case
  proof (cases "lt x y")
    case True
    then have "\<not> lt y x" by (rule asym)
    moreover have "\<forall>z \<in> set ys. \<not> lt z x"
    proof
      fix z assume "z \<in> set ys"
      with Cons.prems have "\<not> lt z y" by simp
      with \<open>\<not> lt y x\<close> show "\<not> lt z x" by (rule tr)
    qed
    ultimately show ?thesis using True Cons.prems by simp
  next
    case False
    with Cons show ?thesis by (simp add: set_insertBy)
  qed
qed

lemma sorted_foldl_insertBy:
  assumes tr: "\<And>a b c. \<not> lt b a \<Longrightarrow> \<not> lt c b \<Longrightarrow> \<not> lt c a"
    and asym: "\<And>a b. lt a b \<Longrightarrow> \<not> lt b a"
  shows "sorted_wrt (\<lambda>a b. \<not> lt b a) acc
     \<Longrightarrow> sorted_wrt (\<lambda>a b. \<not> lt b a) (foldl (\<lambda>sorted x. insertBy lt x sorted) acc xs)"
proof (induction xs arbitrary: acc)
  case Nil
  then show ?case by simp
next
  case (Cons x xs)
  have "sorted_wrt (\<lambda>a b. \<not> lt b a) (insertBy lt x acc)"
    using tr asym Cons.prems by (rule sorted_insertBy)
  then show ?case using Cons.IH by simp
qed

lemma insertionSort_spec:
  assumes tr: "\<And>a b c. \<not> lt b a \<Longrightarrow> \<not> lt c b \<Longrightarrow> \<not> lt c a"
    and asym: "\<And>a b. lt a b \<Longrightarrow> \<not> lt b a"
  shows "sortSliceSpec insertionSort lt"
proof -
  have "sorted_wrt (\<lambda>a b. \<not> lt b a) (foldl (\<lambda>sorted x. insertBy lt x sorted) [] xs)" for xs
  proof (rule sorted_foldl_insertBy)
    show "\<And>a b c. \<not> lt b a \<Longrightarrow> \<not> lt c b \<Longrightarrow> \<not> lt c a" by (rule tr)
    show "\<And>a b. lt a b \<Longrightarrow> \<not> lt b a" by (rule asym)
    show "sorted_wrt (\<lambda>a b. \<not> lt b a) []" by simp
  qed
  then show ?thesis by (simp add: sortSliceSpec_def insertionSort_def mset_foldl_insertBy)
qed

lemma insertionSort_After: "sortSliceSpec insertionSort (\<lambda>a b. pr_CreationTimestamp a > pr_CreationTimestamp b)"
  by (rule insertionSort_spec) auto

lemma insertionSort_Before: "sortSliceSpec insertionSort (\<lambda>a b. pod_CreationTimestamp a < pod_CreationTimestamp b)"
  by (rule insertionSort_spec) auto

lemma nameWithContext_neq: "nameWithContext env pr \<noteq> pipelineRunActivityName env pr"
  by (simp add: nameWithContext_def)

lemma replace_lookup_former:
  "newName \<noteq> formerName \<Longrightarrow>
     map_of (replacePipelineActivityNameWithEnrichedName m formerName newName) formerName = None"
  by (simp add: replacePipelineActivityNameWithEnrichedName_def delete_conv')

lemma replace_lookup_new:
  "newName \<noteq> formerName \<Longrightarrow>
     map_of (replacePipelineActivityNameWithEnrichedName m formerName newName) newName
       = Some (mapIndex m formerName)"
  by (simp add: replacePipelineActivityNameWithEnrichedName_def delete_conv' update_conv')

lemma fold_matchRun_absent:
  "\<forall>pr \<in> set prs. pipelineRunActivityName env pr = k \<Longrightarrow> map_of m k = None
     \<Longrightarrow> fold (matchRun env) prs (names, m) = (names, m)"
  by (induction prs) (auto simp: matchRun_def)

lemma fold_matchRun_same_key:
  assumes "\<forall>pr \<in> set (first # rest). pipelineRunActivityName env pr = k"
    and "map_of m k \<noteq> None"
  shows "fold (matchRun env) (first # rest) ([], m)
           = ([nameWithContext env first],
              replacePipelineActivityNameWithEnrichedName m k (nameWithContext env first))"
proof -
  have k: "pipelineRunActivityName env first = k" using assms(1) by simp
  let ?m1 = "replacePipelineActivityNameWithEnrichedName m k (nameWithContext env first)"
  have "map_of ?m1 k = None"
    using nameWithContext_neq[of env first] k by (simp add: replace_lookup_former)
  moreover have "\<forall>pr \<in> set rest. pipelineRunActivityName env pr = k" using assms(1) by simp
  ultimately have "fold (matchRun env) rest ([nameWithContext env first], ?m1)
      = ([nameWithContext env first], ?m1)"
    by (rule fold_matchRun_absent[rotated])
  then show ?thesis using k assms(2) by (simp add: matchRun_def)
qed

lemma index_keeps_key:
  assumes "map_of m0 k = Some (Some q)" and "f q = k"
  shows "\<exists>p'. map_of (fold (\<lambda>p m. AList.update (f p) (Some p) m) pas m0) k = Some (Some p')
            \<and> f p' = k \<and> (p' = q \<or> p' \<in> set pas)"
  using assms
proof (induction pas arbitrary: m0 q)
  case Nil
  then show ?case by simp
next
  case (Cons a pas)
  show ?case
  proof (cases "f a = k")
    case True
    have "map_of (AList.update (f a) (Some a) m0) k = Some (Some a)"
      using True by (simp add: update_conv')
    from Cons.IH[OF this True] show ?thesis by auto
  next
    case False
    then have "map_of (AList.update (f a) (Some a) m0) k = Some (Some q)"
      using Cons.prems(1) by (simp add: update_conv')
    from Cons.IH[OF this Cons.prems(2)] show ?thesis by auto
  qed
qed

lemma index_has_key:
  assumes "p \<in> set pas" and "f p = k"
  shows "\<exists>p'. map_of (fold (\<lambda>p m. AList.update (f p) (Some p) m) pas m0) k = Some (Some p')
            \<and> f p' = k \<and> p' \<in> set pas"
  using assms
proof (induction pas arbitrary: m0)
  case Nil
  then show ?case by simp
next
  case (Cons a pas)
  show ?case
  proof (cases "p \<in> set pas")
    case True
    from Cons.IH[OF True Cons.prems(2)] show ?thesis by auto
  next
    case False
    then have a: "a = p" using Cons.prems(1) by simp
    have "map_of (AList.update (f a) (Some a) m0) k = Some (Some a)"
      using a Cons.prems(2) by (simp add: update_conv')
    from index_keeps_key[OF this, of f pas] a Cons.prems(2) show ?thesis by auto
  qed
qed

text \<open>
  C3, as the code has it. When all the runs listed share one canonical key and an activity
  has that key, one name is returned and no more: the enriched name of the run that
  \<open>sort.Slice\<close> put first, a run with the latest creation timestamp. That name maps to an
  activity of the key in the returned map, and the plain key maps to nothing any more:
  \<open>replacePipelineActivityNameWithEnrichedName\<close> deleted it, so every later run of the
  same key finds no entry and is skipped.
\<close>

theorem same_key_runs_yield_one_name:
  assumes srt: "sortSliceSpec (sortSlicePipelineRuns env) (\<lambda>a b. pr_CreationTimestamp a > pr_CreationTimestamp b)"
    and pas: "PipelineActivitiesList env ns (Replace1 (Join filters '','') ''repo='' ''repository='') w
                = ((Some pas, None), w1)"
    and prs: "PipelineRunsList env ns (Join filters '','') w1 = ((Some prs, e), w2)"
    and two: "length prs \<ge> 2"
    and key: "\<forall>pr \<in> set prs. pipelineRunActivityName env pr = k"
    and rcd: "p \<in> set pas" "createPipelineActivityName env (pa_Labels p) (Build (pa_Spec p)) = k"
  shows "\<exists>first m p'. GetTektonPipelinesWithActivePipelineActivity env ns filters w
              = (Returned ([nameWithContext env first], m, None), w2)
           \<and> first \<in> set prs \<and> (\<forall>pr \<in> set prs. pr_CreationTimestamp pr \<le> pr_CreationTimestamp first)
           \<and> map_of m (nameWithContext env first) = Some (Some p') \<and> p' \<in> set pas
           \<and> createPipelineActivityName env (pa_Labels p') (Build (pa_Spec p')) = k
           \<and> map_of m k = None"
proof -
  let ?lt = "\<lambda>a b. pr_CreationTimestamp a > pr_CreationTimestamp b"
  let ?sorted = "sortSlicePipelineRuns env ?lt prs"
  let ?f = "\<lambda>p. createPipelineActivityName env (pa_Labels p) (Build (pa_Spec p))"
  from srt have ms: "mset ?sorted = mset prs"
    and so: "sorted_wrt (\<lambda>a b. \<not> ?lt b a) ?sorted"
    by (simp_all add: sortSliceSpec_def)
  have st: "set ?sorted = set prs" using ms by (rule mset_eq_setD)
  have "prs \<noteq> []" using two by auto
  then have "?sorted \<noteq> []" using st by auto
  then obtain first rest where fr: "?sorted = first # rest" by (cases ?sorted) auto
  have first_in: "first \<in> set prs" using st fr by auto
  have newest: "\<forall>pr \<in> set prs. pr_CreationTimestamp pr \<le> pr_CreationTimestamp first"
  proof
    fix pr assume "pr \<in> set prs"
    then have "pr = first \<or> pr \<in> set rest" using st fr by auto
    then show "pr_CreationTimestamp pr \<le> pr_CreationTimestamp first"
      using so fr by auto
  qed
  from index_has_key[OF rcd(1), of ?f k "[]"] rcd(2)
  obtain p' where p': "map_of (indexActivities env pas) k = Some (Some p')" "?f p' = k" "p' \<in> set pas"
    by (auto simp: indexActivities_def)
  let ?m = "replacePipelineActivityNameWithEnrichedName (indexActivities env pas) k (nameWithContext env first)"
  have keys: "\<forall>pr \<in> set (first # rest). pipelineRunActivityName env pr = k"
    using key st fr by auto
  have fold: "fold (matchRun env) ?sorted ([], indexActivities env pas) = ([nameWithContext env first], ?m)"
    unfolding fr by (rule fold_matchRun_same_key[OF keys]) (simp add: p'(1))
  have r: "GetTektonPipelinesWithActivePipelineActivity env ns filters w
             = (Returned ([nameWithContext env first], ?m, None), w2)"
    using pas prs fold by (simp add: GetTektonPipelinesWithActivePipelineActivity_def)
  have kf: "pipelineRunActivityName env first = k" using keys by simp
  have ne: "nameWithContext env first \<noteq> k" using nameWithContext_neq[of env first] kf by simp
  have l1: "map_of ?m (nameWithContext env first) = Some (Some p')"
    using ne p'(1) by (simp add: replace_lookup_new mapIndex_def)
  have l2: "map_of ?m k = None" using ne by (simp add: replace_lookup_former)
  show ?thesis
    apply (rule exI[of _ first])
    apply (rule exI[of _ ?m])
    apply (rule exI[of _ p'])
    using r first_in newest l1 l2 p'(2,3) apply simp
    done
qed


lemmas matcher_defs = GetTektonPipelinesWithActivePipelineActivity_def matchRun_def indexActivities_def
  replacePipelineActivityNameWithEnrichedName_def mapIndex_def nameWithContext_def
  pipelineRunActivityName_def findLegacyPipelineRunBuildNumber_def createPipelineActivityName_def
  label_def Let_def

lemmas script_defs = scripted_def quietWriter_def noScript_def statusStarted_def labelPodInfo_def
  asciiLower_def insertionSort_def widgets7_def widgetsLabels_def runOf_def podOf_def

lemmas case_congs = outcome.case_cong_weak prod.case_cong_weak option.case_cong_weak
  sum.case_cong_weak if_weak_cong list.case_cong_weak

text \<open>
  C3 as stated fails: two runs of build 7 with the contexts \<open>integration\<close> and
  \<open>pr-build\<close> and one activity of that build give a single name, not two.
\<close>

theorem same_key_runs_counterexample:
  "pipelineRunActivityName (scripted sameKeyRuns) (runOf ''run1'' ''integration'' 10)
     = pipelineRunActivityName (scripted sameKeyRuns) (runOf ''run2'' ''pr-build'' 20)
   \<and> label (pr_Labels (runOf ''run1'' ''integration'' 10)) ''context''
       \<noteq> label (pr_Labels (runOf ''run2'' ''pr-build'' 20)) ''context''
   \<and> mapIndex (indexActivities (scripted sameKeyRuns) [widgets7])
        (pipelineRunActivityName (scripted sameKeyRuns) (runOf ''run1'' ''integration'' 10)) = Some widgets7
   \<and> GetTektonPipelinesWithActivePipelineActivity (scripted sameKeyRuns) ''jx'' [] 0
       = (Returned ([''acme/widgets/master #7 pr-build''],
                    [(''acme/widgets/master #7 pr-build'', Some widgets7)], None), 2)"
  by (simp add: matcher_defs script_defs sameKeyRuns_def cong: case_congs)

theorem same_key_runs_witness:
  "sortSliceSpec (sortSlicePipelineRuns (scripted sameKeyRuns))
     (\<lambda>a b. pr_CreationTimestamp a > pr_CreationTimestamp b)
   \<and> pipelineRunActivityName (scripted sameKeyRuns) (runOf ''run1'' ''integration'' 10) = ''acme/widgets/master #7''
   \<and> pipelineRunActivityName (scripted sameKeyRuns) (runOf ''run2'' ''pr-build'' 20) = ''acme/widgets/master #7''
   \<and> createPipelineActivityName (scripted sameKeyRuns) (pa_Labels widgets7) (Build (pa_Spec widgets7))
       = ''acme/widgets/master #7''
   \<and> (\<exists>first m p'. GetTektonPipelinesWithActivePipelineActivity (scripted sameKeyRuns) ''jx'' [] 0
              = (Returned ([nameWithContext (scripted sameKeyRuns) first], m, None), 2)
           \<and> first \<in> set [runOf ''run1'' ''integration'' 10, runOf ''run2'' ''pr-build'' 20]
           \<and> (\<forall>pr \<in> set [runOf ''run1'' ''integration'' 10, runOf ''run2'' ''pr-build'' 20].
                 pr_CreationTimestamp pr \<le> pr_CreationTimestamp first)
           \<and> map_of m (nameWithContext (scripted sameKeyRuns) first) = Some (Some p') \<and> p' \<in> set [widgets7]
           \<and> createPipelineActivityName (scripted sameKeyRuns) (pa_Labels p') (Build (pa_Spec p'))
               = ''acme/widgets/master #7''
           \<and> map_of m ''acme/widgets/master #7'' = None)"
proof -
  let ?env = "scripted sameKeyRuns"
  let ?r1 = "runOf ''run1'' ''integration'' 10" and ?r2 = "runOf ''run2'' ''pr-build'' 20"
  have h1: "sortSliceSpec (sortSlicePipelineRuns ?env) (\<lambda>a b. pr_CreationTimestamp a > pr_CreationTimestamp b)"
    using insertionSort_After by (simp add: scripted_def)
  have h2: "PipelineActivitiesList ?env ''jx'' (Replace1 (Join [] '','') ''repo='' ''repository='') 0
              = ((Some [widgets7], None), 1)"
    by (simp add: scripted_def sameKeyRuns_def noScript_def)
  have h3: "PipelineRunsList ?env ''jx'' (Join [] '','') 1 = ((Some [?r1, ?r2], None), 2)"
    by (simp add: scripted_def sameKeyRuns_def noScript_def)
  have h4: "length [?r1, ?r2] \<ge> 2" by simp
  have k1: "pipelineRunActivityName ?env ?r1 = ''acme/widgets/master #7''"
    by (simp add: matcher_defs script_defs)
  have k2: "pipelineRunActivityName ?env ?r2 = ''acme/widgets/master #7''"
    by (simp add: matcher_defs script_defs)
  have h5: "\<forall>pr \<in> set [?r1, ?r2]. pipelineRunActivityName ?env pr = ''acme/widgets/master #7''"
    using k1 k2 by simp
  have h6: "widgets7 \<in> set [widgets7]" by simp
  have h7: "createPipelineActivityName ?env (pa_Labels widgets7) (Build (pa_Spec widgets7))
              = ''acme/widgets/master #7''"
    by (simp add: matcher_defs script_defs)
  from same_key_runs_yield_one_name[OF h1 h2 h3 h4 h5 h6 h7] h1 k1 k2 h7
  show ?thesis by blast
qed

lemma firstRuns_Nil: "firstRuns env D [] = []"
  by (simp add: firstRuns_def)

lemma firstRuns_Cons:
  "firstRuns env D (pr # prs) =
     (if pipelineRunActivityName env pr \<in> D
      then pr # firstRuns env (D - {pipelineRunActivityName env pr}) prs
      else firstRuns env D prs)"
proof -
  have "filter (\<lambda>y. pipelineRunActivityName env y \<noteq> pipelineRunActivityName env pr)
          (filter (\<lambda>r. pipelineRunActivityName env r \<in> D) prs)
        = filter (\<lambda>r. pipelineRunActivityName env r \<in> D - {pipelineRunActivityName env pr}) prs"
    by (induction prs) auto
  then show ?thesis by (simp add: firstRuns_def)
qed

lemma firstRuns_cong:
  "\<forall>r \<in> set prs. (pipelineRunActivityName env r \<in> D) = (pipelineRunActivityName env r \<in> D')
     \<Longrightarrow> firstRuns env D prs = firstRuns env D' prs"
proof -
  assume "\<forall>r \<in> set prs. (pipelineRunActivityName env r \<in> D) = (pipelineRunActivityName env r \<in> D')"
  then have "filter (\<lambda>pr. pipelineRunActivityName env pr \<in> D) prs
           = filter (\<lambda>pr. pipelineRunActivityName env pr \<in> D') prs"
    by (intro filter_cong) simp_all
  then show ?thesis by (simp add: firstRuns_def)
qed

lemma dom_replace:
  "newName \<noteq> formerName \<Longrightarrow>
   dom (map_of (replacePipelineActivityNameWithEnrichedName m formerName newName))
     = insert newName (dom (map_of m)) - {formerName}"
  by (auto simp: replacePipelineActivityNameWithEnrichedName_def delete_conv' update_conv' split: if_splits)

lemma keys_indexActivities_fold:
  "dom (map_of (fold (\<lambda>p m. AList.update (f p) (Some p) m) pas m0)) = f ` set pas \<union> dom (map_of m0)"
  by (induction pas arbitrary: m0) (auto simp: update_conv')

lemma keys_indexActivities: "dom (map_of (indexActivities env pas)) = activityNames env pas"
  by (simp add: indexActivities_def activityNames_def keys_indexActivities_fold)

lemma fold_matchRun_first:
  "\<exists>matched m'. fold (matchRun env) prs (names, m) = (names @ map (nameWithContext env) matched, m')
      \<and> subseq matched prs
      \<and> (\<forall>D. D \<subseteq> dom (map_of m) \<longrightarrow> set (firstRuns env D prs) \<subseteq> set matched)
      \<and> (noClash env prs \<longrightarrow> matched = firstRuns env (dom (map_of m)) prs)"
proof (induction prs arbitrary: names m)
  case Nil
  show ?case by (simp add: firstRuns_Nil)
next
  case (Cons pr prs)
  let ?k = "pipelineRunActivityName env pr" and ?n = "nameWithContext env pr"
  show ?case
  proof (cases "map_of m ?k \<noteq> None")
    case True
    let ?m1 = "replacePipelineActivityNameWithEnrichedName m ?k ?n"
    have d1: "dom (map_of ?m1) = insert ?n (dom (map_of m)) - {?k}"
      using nameWithContext_neq by (rule dom_replace)
    from Cons.IH[of "names @ [?n]" ?m1]
    obtain matched m' where h: "fold (matchRun env) prs (names @ [?n], ?m1)
        = ((names @ [?n]) @ map (nameWithContext env) matched, m')"
      and sub: "subseq matched prs"
      and inc: "\<forall>D. D \<subseteq> dom (map_of ?m1) \<longrightarrow> set (firstRuns env D prs) \<subseteq> set matched"
      and ex: "noClash env prs \<longrightarrow> matched = firstRuns env (dom (map_of ?m1)) prs"
      by blast
    have f: "fold (matchRun env) (pr # prs) (names, m) = (names @ map (nameWithContext env) (pr # matched), m')"
      using True h by (simp add: matchRun_def)
    have s: "subseq (pr # matched) (pr # prs)" using sub by simp
    have i: "\<forall>D. D \<subseteq> dom (map_of m) \<longrightarrow> set (firstRuns env D (pr # prs)) \<subseteq> set (pr # matched)"
    proof (intro allI impI)
      fix D assume D: "D \<subseteq> dom (map_of m)"
      then have "D - {?k} \<subseteq> dom (map_of ?m1)" unfolding d1 by blast
      with inc have a: "set (firstRuns env (D - {?k}) prs) \<subseteq> set matched" by blast
      show "set (firstRuns env D (pr # prs)) \<subseteq> set (pr # matched)"
      proof (cases "?k \<in> D")
        case True
        then show ?thesis using a by (auto simp: firstRuns_Cons)
      next
        case False
        then have "D - {?k} = D" by blast
        with a False show ?thesis by (auto simp: firstRuns_Cons)
      qed
    qed
    have e: "noClash env (pr # prs) \<longrightarrow> pr # matched = firstRuns env (dom (map_of m)) (pr # prs)"
    proof
      assume nc: "noClash env (pr # prs)"
      then have "noClash env prs" by (simp add: noClash_def)
      with ex have m1: "matched = firstRuns env (dom (map_of ?m1)) prs" by blast
      have "\<forall>r \<in> set prs. pipelineRunActivityName env r \<noteq> ?n"
        using nc by (auto simp: noClash_def)
      then have "firstRuns env (dom (map_of ?m1)) prs = firstRuns env (dom (map_of m) - {?k}) prs"
        unfolding d1 by (intro firstRuns_cong) auto
      moreover have "?k \<in> dom (map_of m)" using True by blast
      ultimately show "pr # matched = firstRuns env (dom (map_of m)) (pr # prs)"
        using m1 by (simp add: firstRuns_Cons)
    qed
    from f s i e show ?thesis by blast
  next
    case False
    from Cons.IH[of names m]
    obtain matched m' where h: "fold (matchRun env) prs (names, m)
        = (names @ map (nameWithContext env) matched, m')"
      and sub: "subseq matched prs"
      and inc: "\<forall>D. D \<subseteq> dom (map_of m) \<longrightarrow> set (firstRuns env D prs) \<subseteq> set matched"
      and ex: "noClash env prs \<longrightarrow> matched = firstRuns env (dom (map_of m)) prs"
      by blast
    have f: "fold (matchRun env) (pr # prs) (names, m) = (names @ map (nameWithContext env) matched, m')"
      using False h by (simp add: matchRun_def)
    have s: "subseq matched (pr # prs)" using sub by (rule list_emb_Cons)
    have nk: "?k \<notin> dom (map_of m)" using False by blast
    have i: "\<forall>D. D \<subseteq> dom (map_of m) \<longrightarrow> set (firstRuns env D (pr # prs)) \<subseteq> set matched"
    proof (intro allI impI)
      fix D assume D: "D \<subseteq> dom (map_of m)"
      with nk have "?k \<notin> D" by blast
      then show "set (firstRuns env D (pr # prs)) \<subseteq> set matched"
        using inc D by (simp add: firstRuns_Cons)
    qed
    have e: "noClash env (pr # prs) \<longrightarrow> matched = firstRuns env (dom (map_of m)) (pr # prs)"
    proof
      assume nc: "noClash env (pr # prs)"
      then have "noClash env prs" by (simp add: noClash_def)
      with ex nk show "matched = firstRuns env (dom (map_of m)) (pr # prs)"
        by (simp add: firstRuns_Cons)
    qed
    from f s i e show ?thesis by blast
  qed
qed

text \<open>
  C9. The names returned are the enriched names of runs taken in the order in which
  \<open>sort.Slice\<close> left them, so the creation timestamps of the runs named never increase along
  the list (most recent first). Every run whose canonical name is the name of a listed
  activity and that is the first of that name in the sorted list is among them; and when no
  enriched name of a run is the canonical name of a run, these are exactly the runs named,
  one name each, in that order. This holds for every list of runs; the call returns when
  both lists come back non-nil and the activities were listed without error.
\<close>

theorem names_ordered_by_creation_descending:
  assumes srt: "sortSliceSpec (sortSlicePipelineRuns env) (\<lambda>a b. pr_CreationTimestamp a > pr_CreationTimestamp b)"
    and pas: "PipelineActivitiesList env ns (Replace1 (Join filters '','') ''repo='' ''repository='') w
                = ((Some pas, None), w1)"
    and prs: "PipelineRunsList env ns (Join filters '','') w1 = ((Some prs, e), w2)"
  shows "\<exists>matched m. GetTektonPipelinesWithActivePipelineActivity env ns filters w
             = (Returned (map (nameWithContext env) matched, m, None), w2)
           \<and> subseq matched (sortSlicePipelineRuns env (\<lambda>a b. pr_CreationTimestamp a > pr_CreationTimestamp b) prs)
           \<and> set matched \<subseteq> set prs
           \<and> sorted_wrt (\<lambda>a b. pr_CreationTimestamp a \<ge> pr_CreationTimestamp b) matched
           \<and> set (firstRuns env (activityNames env pas)
                     (sortSlicePipelineRuns env (\<lambda>a b. pr_CreationTimestamp a > pr_CreationTimestamp b) prs))
               \<subseteq> set matched
           \<and> (noClash env prs \<longrightarrow>
                matched = firstRuns env (activityNames env pas)
                            (sortSlicePipelineRuns env (\<lambda>a b. pr_CreationTimestamp a > pr_CreationTimestamp b) prs))"
proof -
  let ?lt = "\<lambda>a b. pr_CreationTimestamp a > pr_CreationTimestamp b"
  let ?sorted = "sortSlicePipelineRuns env ?lt prs"
  let ?m0 = "indexActivities env pas"
  from srt have ms: "mset ?sorted = mset prs"
    and so: "sorted_wrt (\<lambda>a b. \<not> ?lt b a) ?sorted"
    by (simp_all add: sortSliceSpec_def)
  have se: "set ?sorted = set prs" using ms by (rule mset_eq_setD)
  from fold_matchRun_first[of env ?sorted "[]" ?m0]
  obtain matched m where f: "fold (matchRun env) ?sorted ([], ?m0)
      = (map (nameWithContext env) matched, m)" and sub: "subseq matched ?sorted"
    and inc: "\<forall>D. D \<subseteq> dom (map_of ?m0) \<longrightarrow> set (firstRuns env D ?sorted) \<subseteq> set matched"
    and ex: "noClash env ?sorted \<longrightarrow> matched = firstRuns env (dom (map_of ?m0)) ?sorted"
    by auto
  have r: "GetTektonPipelinesWithActivePipelineActivity env ns filters w
          = (Returned (map (nameWithContext env) matched, m, None), w2)"
    using pas prs f by (simp add: GetTektonPipelinesWithActivePipelineActivity_def)
  have st: "set matched \<subseteq> set prs"
    using subseq_set_subset[OF sub] se by simp
  have "sorted_wrt (\<lambda>a b. \<not> ?lt b a) matched"
    using sub so by (rule sorted_wrt_subseq_local)
  then have sw: "sorted_wrt (\<lambda>a b. pr_CreationTimestamp a \<ge> pr_CreationTimestamp b) matched"
    by (simp add: not_less)
  have i: "set (firstRuns env (activityNames env pas) ?sorted) \<subseteq> set matched"
    using inc by (simp add: keys_indexActivities)
  have nc: "noClash env ?sorted = noClash env prs" by (simp add: noClash_def se)
  have x: "noClash env prs \<longrightarrow> matched = firstRuns env (activityNames env pas) ?sorted"
    using ex nc by (simp add: keys_indexActivities)
  show ?thesis
    apply (rule exI[of _ matched])
    apply (rule exI[of _ m])
    using r sub st sw i x apply blast
    done
qed

theorem names_ordered_witness:
  "sortSliceSpec (sortSlicePipelineRuns (scripted severalBuilds))
     (\<lambda>a b. pr_CreationTimestamp a > pr_CreationTimestamp b)
   \<and> noClash (scripted severalBuilds)
        [runOfBuild ''run-a'' ''7'' ''ci'' 10, runOfBuild ''run-b'' ''9'' ''ci'' 15,
         runOfBuild ''run-c'' ''8'' ''ci'' 20, runOfBuild ''run-d'' ''8'' ''nightly'' 5]
   \<and> (\<exists>m. GetTektonPipelinesWithActivePipelineActivity (scripted severalBuilds) ''jx'' [] 0
             = (Returned ([''acme/widgets/master #8 ci'', ''acme/widgets/master #7 ci''], m, None), 2))"
proof -
  let ?env = "scripted severalBuilds"
  let ?lt = "\<lambda>a b. pr_CreationTimestamp a > pr_CreationTimestamp b"
  let ?a = "runOfBuild ''run-a'' ''7'' ''ci'' 10" and ?b = "runOfBuild ''run-b'' ''9'' ''ci'' 15"
  let ?c = "runOfBuild ''run-c'' ''8'' ''ci'' 20" and ?d = "runOfBuild ''run-d'' ''8'' ''nightly'' 5"
  have h1: "sortSliceSpec (sortSlicePipelineRuns ?env) ?lt"
    using insertionSort_After by (simp add: scripted_def)
  have h2: "PipelineActivitiesList ?env ''jx'' (Replace1 (Join [] '','') ''repo='' ''repository='') 0
              = ((Some [widgets7, widgets8], None), 1)"
    by (simp add: scripted_def severalBuilds_def noScript_def)
  have h3: "PipelineRunsList ?env ''jx'' (Join [] '','') 1 = ((Some [?a, ?b, ?c, ?d], None), 2)"
    by (simp add: scripted_def severalBuilds_def noScript_def)
  have ka: "pipelineRunActivityName ?env ?a = ''acme/widgets/master #7''"
    and kb: "pipelineRunActivityName ?env ?b = ''acme/widgets/master #9''"
    and kc: "pipelineRunActivityName ?env ?c = ''acme/widgets/master #8''"
    and kd: "pipelineRunActivityName ?env ?d = ''acme/widgets/master #8''"
    by (simp_all add: matcher_defs scripted_def asciiLower_def runOfBuild_def)
  have na: "nameWithContext ?env ?a = ''acme/widgets/master #7 ci''"
    and nb: "nameWithContext ?env ?b = ''acme/widgets/master #9 ci''"
    and nc: "nameWithContext ?env ?c = ''acme/widgets/master #8 ci''"
    and nd: "nameWithContext ?env ?d = ''acme/widgets/master #8 nightly''"
    by (simp_all add: nameWithContext_def ka kb kc kd) (simp_all add: runOfBuild_def label_def)
  have h4: "noClash ?env [?a, ?b, ?c, ?d]"
    by (simp add: noClash_def ka kb kc kd na nb nc nd)
  have an: "activityNames ?env [widgets7, widgets8] = {''acme/widgets/master #7'', ''acme/widgets/master #8''}"
    by (simp add: activityNames_def matcher_defs script_defs widgets8_def)
  have so: "sortSlicePipelineRuns ?env ?lt [?a, ?b, ?c, ?d] = [?c, ?b, ?a, ?d]"
    by (simp add: scripted_def insertionSort_def runOfBuild_def)
  have fr: "firstRuns ?env (activityNames ?env [widgets7, widgets8]) (sortSlicePipelineRuns ?env ?lt [?a, ?b, ?c, ?d])
              = [?c, ?a]"
    unfolding so an by (simp add: firstRuns_def ka kb kc kd)
  from names_ordered_by_creation_descending[OF h1 h2 h3] h4 fr
  obtain m where "GetTektonPipelinesWithActivePipelineActivity ?env ''jx'' [] 0
             = (Returned (map (nameWithContext ?env) [?c, ?a], m, None), 2)"
    by auto
  then have "\<exists>m. GetTektonPipelinesWithActivePipelineActivity ?env ''jx'' [] 0
             = (Returned ([''acme/widgets/master #8 ci'', ''acme/widgets/master #7 ci''], m, None), 2)"
    by (simp add: na nc)
  with h1 h4 show ?thesis by blast
qed

lemma fold_build_id_bounded:
  "\<forall>q \<in> set ps. param_Name q = ''build_id'' \<longrightarrow> param_Value q = b \<Longrightarrow>
   fold (\<lambda>p buildNumber. if param_Name p = ''build_id'' then param_Value p else buildNumber) ps x \<in> {x, b}"
  by (induction ps arbitrary: x) auto

lemma fold_build_id_found:
  "\<forall>q \<in> set ps. param_Name q = ''build_id'' \<longrightarrow> param_Value q = b \<Longrightarrow>
   \<exists>q \<in> set ps. param_Name q = ''build_id'' \<Longrightarrow>
   fold (\<lambda>p buildNumber. if param_Name p = ''build_id'' then param_Value p else buildNumber) ps x = b"
proof (induction ps arbitrary: x)
  case Nil
  then show ?case by simp
next
  case (Cons a ps)
  show ?case
  proof (cases "param_Name a = ''build_id''")
    case True
    then have "param_Value a = b" using Cons.prems(1) by simp
    moreover have "fold (\<lambda>p buildNumber. if param_Name p = ''build_id'' then param_Value p else buildNumber) ps b \<in> {b, b}"
      using Cons.prems(1) by (intro fold_build_id_bounded) simp
    ultimately show ?thesis using True by simp
  next
    case False
    then show ?thesis using Cons by simp
  qed
qed

text \<open>
  C8. A run without the build label whose parameters named \<open>build_id\<close> carry the value
  \<open>b\<close> (for instance \<open>42\<close>) gets the same canonical name as a run with the build label
  \<open>b\<close> and the same owner, repository and branch labels; the two runs therefore find the
  same activity in any map, and with equal context labels the loop body does the same for
  both.
\<close>

theorem legacy_build_id_same_key:
  assumes "label (pr_Labels legacy) (LabelBuild env) = []"
    and "\<exists>q \<in> set (pr_Params legacy). param_Name q = ''build_id''"
    and "\<forall>q \<in> set (pr_Params legacy). param_Name q = ''build_id'' \<longrightarrow> param_Value q = b"
    and "b \<noteq> []"
    and "label (pr_Labels modern) (LabelBuild env) = b"
    and "label (pr_Labels modern) (LabelOwner env) = label (pr_Labels legacy) (LabelOwner env)"
    and "label (pr_Labels modern) (LabelRepository env) = label (pr_Labels legacy) (LabelRepository env)"
    and "label (pr_Labels modern) ''repo'' = label (pr_Labels legacy) ''repo''"
    and "label (pr_Labels modern) (LabelBranch env) = label (pr_Labels legacy) (LabelBranch env)"
  shows "pipelineRunActivityName env legacy = pipelineRunActivityName env modern
       \<and> mapIndex m (pipelineRunActivityName env legacy) = mapIndex m (pipelineRunActivityName env modern)
       \<and> (label (pr_Labels legacy) ''context'' = label (pr_Labels modern) ''context''
            \<longrightarrow> matchRun env legacy acc = matchRun env modern acc)"
proof -
  have "findLegacyPipelineRunBuildNumber legacy = b"
    unfolding findLegacyPipelineRunBuildNumber_def using assms(3,2) by (rule fold_build_id_found)
  then have k: "pipelineRunActivityName env legacy = pipelineRunActivityName env modern"
    using assms by (simp add: pipelineRunActivityName_def createPipelineActivityName_def Let_def)
  have "matchRun env legacy acc = matchRun env modern acc"
    if "label (pr_Labels legacy) ''context'' = label (pr_Labels modern) ''context''"
  proof -
    have "nameWithContext env legacy = nameWithContext env modern"
      using k that by (simp add: nameWithContext_def)
    then show ?thesis using k by (cases acc) (simp add: matchRun_def Let_def)
  qed
  then show ?thesis using k by simp
qed

lemmas model_defs = GetRunningBuildLogs_def getPipelineRunNamesForActivity_def loopBody_def
  perform_def emit_def initial_def waitForContainerToStart_def waitingLine_def headerLine_def
  podBelongs_def podRunName_def mergeLogged_def afterLoop_def namesError_def runSelector_def
  StreamPipelinePersistentLogs_def

text \<open>Concrete runs are evaluated by rewriting with the definitions; the branches of a
  case are only rewritten once the case is decided.\<close>

theorem legacy_build_id_witness:
  "label (pr_Labels legacyRun) (LabelBuild (scripted noScript)) = []
   \<and> (\<exists>q \<in> set (pr_Params legacyRun). param_Name q = ''build_id'')
   \<and> label (pr_Labels modernRun) (LabelBuild (scripted noScript)) = ''42''
   \<and> pipelineRunActivityName (scripted noScript) legacyRun = pipelineRunActivityName (scripted noScript) modernRun
   \<and> mapIndex [(''acme/widgets/master #42'', Some widgets42)] (pipelineRunActivityName (scripted noScript) legacyRun)
       = mapIndex [(''acme/widgets/master #42'', Some widgets42)] (pipelineRunActivityName (scripted noScript) modernRun)
   \<and> matchRun (scripted noScript) legacyRun ([], [(''acme/widgets/master #42'', Some widgets42)])
       = matchRun (scripted noScript) modernRun ([], [(''acme/widgets/master #42'', Some widgets42)])"
proof -
  let ?env = "scripted noScript"
  have h1: "label (pr_Labels legacyRun) (LabelBuild ?env) = []"
    by (simp add: legacyRun_def scripted_def label_def)
  have h2: "\<exists>q \<in> set (pr_Params legacyRun). param_Name q = ''build_id''"
    by (simp add: legacyRun_def)
  have h3: "\<forall>q \<in> set (pr_Params legacyRun). param_Name q = ''build_id'' \<longrightarrow> param_Value q = ''42''"
    by (simp add: legacyRun_def)
  have h4: "''42'' \<noteq> []" by simp
  have h5: "label (pr_Labels modernRun) (LabelBuild ?env) = ''42''"
    by (simp add: modernRun_def scripted_def label_def)
  have h6: "label (pr_Labels modernRun) (LabelOwner ?env) = label (pr_Labels legacyRun) (LabelOwner ?env)"
    by (simp add: modernRun_def legacyRun_def scripted_def label_def)
  have h7: "label (pr_Labels modernRun) (LabelRepository ?env) = label (pr_Labels legacyRun) (LabelRepository ?env)"
    by (simp add: modernRun_def legacyRun_def scripted_def label_def)
  have h8: "label (pr_Labels modernRun) ''repo'' = label (pr_Labels legacyRun) ''repo''"
    by (simp add: modernRun_def legacyRun_def label_def)
  have h9: "label (pr_Labels modernRun) (LabelBranch ?env) = label (pr_Labels legacyRun) (LabelBranch ?env)"
    by (simp add: modernRun_def legacyRun_def scripted_def label_def)
  have c: "label (pr_Labels legacyRun) ''context'' = label (pr_Labels modernRun) ''context''"
    by (simp add: modernRun_def legacyRun_def label_def)
  from legacy_build_id_same_key[OF h1 h2 h3 h4 h5 h6 h7 h8 h9,
      of "[(''acme/widgets/master #42'', Some widgets42)]" "([], [(''acme/widgets/master #42'', Some widgets42)])"]
    h1 h2 h5 c
  show ?thesis by simp
qed

text \<open>
  C4, where the code drops the error. A PipelineRuns query that fails makes
  \<open>GetTektonPipelinesWithActivePipelineActivity\<close> return no names and a nil error when the
  client hands back an empty list with the error, and panic when it hands back no list;
  the error itself is never returned. A pod query that fails while
  \<open>waitForContainerToStart\<close> polls makes that function return the wrapped error, but does
  not end \<open>GetRunningBuildLogs\<close>: the header is written and the log streamed for both
  containers, and the call returns nil.
\<close>

theorem query_errors_dropped:
  "fst (GetTektonPipelinesWithActivePipelineActivity (scripted failingRunsList) ''jx'' [] 0)
     = Returned ([], [(''acme/widgets/master #7'', Some widgets7)], None)
   \<and> fst (GetTektonPipelinesWithActivePipelineActivity (scripted failingRunsListNil) ''jx'' [] 0) = Panicked
   \<and> fst (waitForContainerToStart (scripted failingPodGet) ''jx''
            (Some (podOf ''pod1'' ''run1'' 6 PodPending Waiting)) 0 quietWriter 1 (initial 0))
       = Returned (Some (podOf ''pod1'' ''run1'' 6 PodPending Waiting),
                   Some (Wrapf (Error ''etcdserver: request timed out'') ''failed to load pod pod1''))
   \<and> fst (GetRunningBuildLogs (scripted failingPodGet) widgets7 ''7'' quietWriter 1 (initial 0)) = Returned None
   \<and> map (snd \<circ> snd) (trace (snd (GetRunningBuildLogs (scripted failingPodGet) widgets7 ''7'' quietWriter 1 (initial 0))))
       = [CallPipelineRunsList ''jx'' ''owner=acme,repo=widgets,branch=master,build=7'',
          CallGetBuildPods ''jx'',
          CallWriteLog (''waiting for pod pod1 container build to start...'' @ [CHR 0x0A]),
          CallSleep, CallPodsGet ''jx'' ''pod1'',
          CallWriteLog (''Showing logs for build 7 stage ci and container build'' @ [CHR 0x0A]),
          CallStreamLog ''jx'' (Some (podOf ''pod1'' ''run1'' 6 PodPending Waiting)) \<lparr>c_Name = ''build''\<rparr>,
          CallWriteLog (''waiting for pod pod1 container test to start...'' @ [CHR 0x0A]),
          CallSleep, CallPodsGet ''jx'' ''pod1'',
          CallWriteLog (''Showing logs for build 7 stage ci and container test'' @ [CHR 0x0A]),
          CallStreamLog ''jx'' (Some (podOf ''pod1'' ''run1'' 6 PodPending Waiting)) \<lparr>c_Name = ''test''\<rparr>,
          CallPipelineRunsList ''jx'' ''owner=acme,repo=widgets,branch=master,build=7'']"
  by (simp add: model_defs matcher_defs script_defs failingRunsList_def failingRunsListNil_def
      failingPodGet_def cong: case_congs)

section \<open>Properties of the streaming loop\<close>

lemma stamps_refl: "stamps st st"
  by (simp add: stamps_def)

lemma stamps_trans:
  assumes "stamps a b" and "stamps b c"
  shows "stamps a c"
proof -
  from assms(1) obtain n1 where 1: "iteration b = iteration a" "podRun b = podRun a"
    "trace b = trace a @ n1" "\<forall>e \<in> set n1. fst e = iteration a \<and> fst (snd e) = podRun a"
    unfolding stamps_def by blast
  from assms(2) obtain n2 where 2: "iteration c = iteration b" "podRun c = podRun b"
    "trace c = trace b @ n2" "\<forall>e \<in> set n2. fst e = iteration b \<and> fst (snd e) = podRun b"
    unfolding stamps_def by blast
  have "trace c = trace a @ (n1 @ n2)" using 1(3) 2(3) by simp
  moreover have "\<forall>e \<in> set (n1 @ n2). fst e = iteration a \<and> fst (snd e) = podRun a"
    using 1 2 by auto
  ultimately show ?thesis unfolding stamps_def using 1(1,2) 2(1,2) by metis
qed

lemma stamps_emit: "stamps st (emit c st)"
  by (simp add: stamps_def emit_def)

lemma stamps_perform: "perform c f st = (r, st') \<Longrightarrow> stamps st st'"
  by (auto simp: perform_def stamps_def emit_def split: prod.splits)

lemma waitLoop_stamps: "waitLoop env ns name idx fuel st = (r, st') \<Longrightarrow> stamps st st'"
proof (induction fuel arbitrary: st)
  case 0
  then show ?case by (simp add: stamps_refl)
next
  case (Suc fuel)
  obtain p err st1 where pf:
    "perform (CallPodsGet ns name) (PodsGet env ns name) (emit CallSleep st) = ((p, err), st1)"
    by (metis prod.exhaust)
  have s1: "stamps st st1"
    using stamps_emit stamps_perform[OF pf] by (rule stamps_trans)
  show ?case
  proof (cases err)
    case (Some e)
    with Suc.prems pf have "st' = st1" by simp
    with s1 show ?thesis by simp
  next
    case None
    show ?thesis
    proof (cases "HasContainerStarted env p idx")
      case True
      with Suc.prems pf None have "st' = st1" by simp
      with s1 show ?thesis by simp
    next
      case False
      with Suc.prems pf None have "waitLoop env ns name idx fuel st1 = (r, st')" by simp
      then have "stamps st1 st'" by (rule Suc.IH)
      with s1 show ?thesis by (rule stamps_trans)
    qed
  qed
qed

lemma waitForContainerToStart_stamps:
  assumes "waitForContainerToStart env ns pod idx logWriter fuel st = (r, st')"
  shows "stamps st st'"
proof (cases pod)
  case None
  with assms show ?thesis by (simp add: waitForContainerToStart_def stamps_refl)
next
  case (Some pd)
  show ?thesis
  proof (cases "pod_Phase pd = PodFailed")
    case True
    with assms Some have "st' = emit (CallWarnf (''pod '' @ pod_Name pd @ '' has failed'')) st"
      by (simp add: waitForContainerToStart_def)
    then show ?thesis by (simp add: stamps_emit)
  next
    case notFailed: False
    show ?thesis
    proof (cases "HasContainerStarted env pod idx")
      case True
      with assms Some notFailed show ?thesis by (simp add: waitForContainerToStart_def stamps_refl)
    next
      case False
      obtain err st1 where pf: "perform (CallWriteLog (waitingLine env pd idx))
          (WriteLog logWriter (waitingLine env pd idx)) st = (err, st1)"
        by (metis prod.exhaust)
      have s1: "stamps st st1" using pf by (rule stamps_perform)
      show ?thesis
      proof (cases err)
        case None
        with assms Some notFailed False pf
        have "waitLoop env ns (pod_Name pd) idx fuel st1 = (r, st')"
          by (simp add: waitForContainerToStart_def)
        then have "stamps st1 st'" by (rule waitLoop_stamps)
        with s1 show ?thesis by (rule stamps_trans)
      next
        case (Some e)
        with assms \<open>pod = Some pd\<close> notFailed False pf
        have "waitLoop env ns (pod_Name pd) idx fuel
                (emit (CallWarnf ''There was a problem writing a single line into the writeFN'') st1) = (r, st')"
          by (simp add: waitForContainerToStart_def)
        then have "stamps (emit (CallWarnf ''There was a problem writing a single line into the writeFN'') st1) st'"
          by (rule waitLoop_stamps)
        with stamps_emit have "stamps st1 st'" by (rule stamps_trans)
        with s1 show ?thesis by (rule stamps_trans)
      qed
    qed
  qed
qed

lemma streamContainers_stamps:
  "streamContainers env writer pa buildName stageName fuel pod i ics st = (r, st') \<Longrightarrow> stamps st st'"
proof (induction ics arbitrary: pod i st)
  case Nil
  then show ?case by (simp add: stamps_refl)
next
  case (Cons ic ics)
  obtain rw st1 where w: "waitForContainerToStart env (pa_Namespace pa) pod i writer fuel st = (rw, st1)"
    by (metis prod.exhaust)
  have s1: "stamps st st1" using w by (rule waitForContainerToStart_stamps)
  show ?case
  proof (cases rw)
    case Panicked
    with Cons.prems w have "st' = st1" by simp
    with s1 show ?thesis by simp
  next
    case OutOfFuel
    with Cons.prems w have "st' = st1" by simp
    with s1 show ?thesis by simp
  next
    case (Returned pe)
    obtain pod' err where pe: "pe = (pod', err)" by (cases pe)
    obtain e2 st2 where h: "perform (CallWriteLog (headerLine env buildName stageName ic))
        (WriteLog writer (headerLine env buildName stageName ic)) st1 = (e2, st2)"
      by (metis prod.exhaust)
    have s2: "stamps st st2" using s1 stamps_perform[OF h] by (rule stamps_trans)
    show ?thesis
    proof (cases e2)
      case (Some e)
      with Cons.prems w Returned pe h have "st' = st2" by simp
      with s2 show ?thesis by simp
    next
      case None
      obtain e3 st3 where sl: "perform (CallStreamLog (pa_Namespace pa) pod' ic)
          (StreamLog writer (pa_Namespace pa) pod' ic) st2 = (e3, st3)"
        by (metis prod.exhaust)
      have s3: "stamps st st3" using s2 stamps_perform[OF sl] by (rule stamps_trans)
      show ?thesis
      proof (cases e3)
        case (Some e)
        with Cons.prems w Returned pe h None sl have "st' = st3" by simp
        with s3 show ?thesis by simp
      next
        case e3None: None
        with Cons.prems w Returned pe h None sl
        have "streamContainers env writer pa buildName stageName fuel pod' (Suc i) ics st3 = (r, st')"
          by simp
        then have "stamps st3 st'" by (rule Cons.IH)
        with s3 show ?thesis by (rule stamps_trans)
      qed
    qed
  qed
qed

lemma adds_refl: "adds ok st st"
  by (simp add: adds_def)

lemma adds_trans:
  assumes "adds ok a b" and "adds ok b c"
  shows "adds ok a c"
proof -
  from assms(1) obtain n1 where 1: "iteration b = iteration a" "trace b = trace a @ n1"
    "\<forall>e \<in> set n1. fst e = iteration a \<and>
        (isStreamLog (snd (snd e)) \<longrightarrow> (\<exists>run. fst (snd e) = Some run \<and> ok run))"
    unfolding adds_def by blast
  from assms(2) obtain n2 where 2: "iteration c = iteration b" "trace c = trace b @ n2"
    "\<forall>e \<in> set n2. fst e = iteration b \<and>
        (isStreamLog (snd (snd e)) \<longrightarrow> (\<exists>run. fst (snd e) = Some run \<and> ok run))"
    unfolding adds_def by blast
  have t: "trace c = trace a @ (n1 @ n2)" using 1(2) 2(2) by simp
  have "\<forall>e \<in> set (n1 @ n2). fst e = iteration a \<and>
        (isStreamLog (snd (snd e)) \<longrightarrow> (\<exists>run. fst (snd e) = Some run \<and> ok run))"
    using 1(1,3) 2(3) by auto
  with t show ?thesis unfolding adds_def using 1(1) 2(1) by metis
qed

lemma adds_mono:
  assumes "adds ok st st'" and "\<And>run. ok run \<Longrightarrow> ok' run"
  shows "adds ok' st st'"
proof -
  from assms(1) obtain new where n: "iteration st' = iteration st" "trace st' = trace st @ new"
    "\<forall>e \<in> set new. fst e = iteration st \<and>
        (isStreamLog (snd (snd e)) \<longrightarrow> (\<exists>run. fst (snd e) = Some run \<and> ok run))"
    unfolding adds_def by blast
  have "\<forall>e \<in> set new. fst e = iteration st \<and>
        (isStreamLog (snd (snd e)) \<longrightarrow> (\<exists>run. fst (snd e) = Some run \<and> ok' run))"
    using n(3) assms(2) by blast
  with n(1,2) show ?thesis unfolding adds_def by blast
qed

lemma stamps_adds:
  assumes "stamps st st'" and "podRun st = Some run" and "ok run"
  shows "adds ok st st'"
proof -
  from assms(1) obtain new where n: "iteration st' = iteration st" "trace st' = trace st @ new"
    "\<forall>e \<in> set new. fst e = iteration st \<and> fst (snd e) = podRun st"
    unfolding stamps_def by blast
  have "\<forall>e \<in> set new. fst e = iteration st \<and>
        (isStreamLog (snd (snd e)) \<longrightarrow> (\<exists>run. fst (snd e) = Some run \<and> ok run))"
    using n(3) assms(2,3) by simp
  with n(1,2) show ?thesis unfolding adds_def by blast
qed

lemma adds_perform:
  "\<not> isStreamLog c \<Longrightarrow> perform c f st = (r, st') \<Longrightarrow> adds ok st st'"
  by (auto simp: perform_def adds_def emit_def split: prod.splits)

lemma adds_podRun_left: "adds ok (st\<lparr>podRun := x\<rparr>) st' = adds ok st st'"
  by (simp add: adds_def)

lemma keys_update: "fst ` set (AList.update k v al) = insert k (fst ` set al)"
  by (simp add: dom_update)

text \<open>One pass over the pods: every \<open>StreamLog\<close> call it makes is for a run label that was
  not yet in \<open>pipelineRunsLogged\<close>, and when the pass ends the label is in
  \<open>runsSeenForPods\<close>.\<close>

lemma streamPods_adds:
  "streamPods env writer pa buildName fuel logged pods acc st = (r, st') \<Longrightarrow>
     adds (\<lambda>run. map_of logged run = None \<and>
                 (\<forall>acc'. r = Returned (Inr acc') \<longrightarrow> run \<in> fst ` set (fst acc'))) st st'
     \<and> (\<forall>acc'. r = Returned (Inr acc') \<longrightarrow> fst ` set (fst acc) \<subseteq> fst ` set (fst acc'))"
proof (induction pods arbitrary: acc st)
  case Nil
  then show ?case by (auto simp: adds_refl)
next
  case (Cons pod pods)
  let ?run = "podRunName env pod"
  let ?ok = "\<lambda>run. map_of logged run = None \<and>
                 (\<forall>acc'. r = Returned (Inr acc') \<longrightarrow> run \<in> fst ` set (fst acc'))"
  show ?case
  proof (cases "map_of logged ?run = None \<and> podBelongs env pa pod")
    case False
    with Cons.prems have "streamPods env writer pa buildName fuel logged pods acc st = (r, st')"
      by (auto simp: Let_def)
    then show ?thesis by (rule Cons.IH)
  next
    case True
    obtain rc st1 where sc: "streamContainers env writer pa buildName
        (label (pod_Labels pod) ''jenkins.io/task-stage-name'') fuel (Some pod) 0
        (GetContainersWithStatusAndIsInit env pod) (st\<lparr>podRun := Some ?run\<rparr>) = (rc, st1)"
      by (metis prod.exhaust)
    have s1: "stamps (st\<lparr>podRun := Some ?run\<rparr>) st1" using sc by (rule streamContainers_stamps)
    have eq: "streamPods env writer pa buildName fuel logged (pod # pods) acc st =
        (case (rc, st1) of
           (Returned None, st1) \<Rightarrow>
             streamPods env writer pa buildName fuel logged pods
               (AList.update ?run True (fst acc), True) (st1\<lparr>podRun := None\<rparr>)
         | (Returned (Some e), st1) \<Rightarrow> (Returned (Inl e), st1)
         | (Panicked, st1) \<Rightarrow> (Panicked, st1)
         | (OutOfFuel, st1) \<Rightarrow> (OutOfFuel, st1))"
      using True sc by (simp add: Let_def)
    have run_free: "map_of logged ?run = None" using True by simp
    have left: "adds ok' st st1" if "ok' ?run" for ok'
    proof -
      have "adds ok' (st\<lparr>podRun := Some ?run\<rparr>) st1"
        using s1 _ that by (rule stamps_adds) simp
      then show ?thesis by (simp add: adds_podRun_left)
    qed
    show ?thesis
    proof (cases rc)
      case Panicked
      with Cons.prems eq have r: "r = Panicked" "st' = st1" by simp_all
      then show ?thesis using left[of ?ok] run_free by simp
    next
      case OutOfFuel
      with Cons.prems eq have r: "r = OutOfFuel" "st' = st1" by simp_all
      then show ?thesis using left[of ?ok] run_free by simp
    next
      case (Returned eo)
      show ?thesis
      proof (cases eo)
        case (Some e)
        with Cons.prems eq Returned have r: "r = Returned (Inl e)" "st' = st1" by simp_all
        then show ?thesis using left[of ?ok] run_free by simp
      next
        case None
        let ?acc1 = "(AList.update ?run True (fst acc), True)"
        from Cons.prems eq Returned None
        have rec: "streamPods env writer pa buildName fuel logged pods ?acc1 (st1\<lparr>podRun := None\<rparr>) = (r, st')"
          by simp
        from Cons.IH[OF rec]
        have ih1: "adds ?ok (st1\<lparr>podRun := None\<rparr>) st'"
          and ih2: "\<forall>acc'. r = Returned (Inr acc') \<longrightarrow> fst ` set (fst ?acc1) \<subseteq> fst ` set (fst acc')"
          by simp_all
        have k1: "fst ` set (fst ?acc1) = insert ?run (fst ` set (fst acc))"
          by (simp add: keys_update)
        have "?ok ?run" using run_free ih2 k1 by auto
        then have "adds ?ok st st1" by (rule left)
        moreover have "adds ?ok st1 st'" using ih1 by (simp add: adds_podRun_left)
        ultimately have "adds ?ok st st'" by (rule adds_trans)
        moreover have "\<forall>acc'. r = Returned (Inr acc') \<longrightarrow> fst ` set (fst acc) \<subseteq> fst ` set (fst acc')"
          using ih2 k1 by auto
        ultimately show ?thesis by simp
      qed
    qed
  qed
qed

lemma keys_mergeLogged:
  "fst ` set (mergeLogged seen logged) = fst ` set seen \<union> fst ` set logged"
  unfolding mergeLogged_def
proof (induction seen arbitrary: logged)
  case Nil
  show ?case by simp
next
  case (Cons kv seen)
  obtain k v where kv: "kv = (k, v)" by (cases kv)
  have "fst ` set (fold (\<lambda>(k, v). AList.update k v) seen (AList.update k v logged))
          = fst ` set seen \<union> fst ` set (AList.update k v logged)"
    by (rule Cons.IH)
  then show ?case using kv by (simp add: keys_update)
qed

lemma getPipelineRunNamesForActivity_adds:
  assumes "getPipelineRunNamesForActivity env pa st = (r, st')"
  shows "adds ok st st'"
proof -
  let ?sel = "runSelector pa"
  obtain res st1 where pf: "perform (CallPipelineRunsList (pa_Namespace pa) ?sel)
      (PipelineRunsList env (pa_Namespace pa) ?sel) st = (res, st1)"
    by (metis prod.exhaust)
  have a: "adds ok st st1" using _ pf by (rule adds_perform) simp
  have "st' = st1" using assms pf
    by (auto simp: getPipelineRunNamesForActivity_def Let_def split: prod.splits option.splits)
  with a show ?thesis by simp
qed

text \<open>One pass of the loop: the calls it adds are stamped with the next iteration, its
  \<open>StreamLog\<close> calls are for run labels that were not in \<open>pipelineRunsLogged\<close> before the
  pass and are in it after the pass, and \<open>pipelineRunsLogged\<close> only grows.\<close>

lemma loopBody_adds:
  assumes "loopBody env writer pa buildName fuel logged found st = (r, st')"
  shows "adds (\<lambda>run. map_of logged run = None \<and>
                 (\<forall>vars. r = Returned (Inr vars) \<longrightarrow> run \<in> fst ` set (fst (snd vars))))
           (st\<lparr>iteration := Suc (iteration st)\<rparr>) st'
       \<and> (\<forall>vars. r = Returned (Inr vars) \<longrightarrow> fst ` set logged \<subseteq> fst ` set (fst (snd vars)))"
proof -
  let ?ok = "\<lambda>run. map_of logged run = None \<and>
                 (\<forall>vars. r = Returned (Inr vars) \<longrightarrow> run \<in> fst ` set (fst (snd vars)))"
  let ?st0 = "st\<lparr>iteration := Suc (iteration st)\<rparr>"
  obtain pods err st1 where pf: "perform (CallGetBuildPods (pa_Namespace pa))
      (GetBuildPods env (pa_Namespace pa)) ?st0 = ((pods, err), st1)"
    by (metis prod.exhaust)
  have a1: "adds ?ok ?st0 st1" using _ pf by (rule adds_perform) simp
  show ?thesis
  proof (cases err)
    case (Some e)
    with assms pf have "r = Returned (Inl (Wrapf e (''failed to get build pods in namespace '' @ pa_Namespace pa)))"
      and "st' = st1" by (simp_all add: loopBody_def)
    with a1 show ?thesis by simp
  next
    case None
    let ?sorted = "sortSlicePods env (\<lambda>a b. pod_CreationTimestamp a < pod_CreationTimestamp b) pods"
    obtain rp st2 where sp: "streamPods env writer pa buildName fuel logged ?sorted ([], found) st1 = (rp, st2)"
      by (metis prod.exhaust)
    let ?okp = "\<lambda>run. map_of logged run = None \<and>
                 (\<forall>acc'. rp = Returned (Inr acc') \<longrightarrow> run \<in> fst ` set (fst acc'))"
    from streamPods_adds[OF sp] have ap: "adds ?okp st1 st2" by simp
    have eq: "(r, st') =
        (case (rp, st2) of
           (Returned (Inl e), st2) \<Rightarrow> (Returned (Inl e), st2)
         | (Returned (Inr (runsSeenForPods, foundLogs')), st2) \<Rightarrow>
             (case getPipelineRunNamesForActivity env pa st2 of
                (Returned (names, Some err), st3) \<Rightarrow> (Returned (Inl (namesError pa err)), st3)
              | (Returned (names, None), st3) \<Rightarrow>
                  (Returned (Inr (names, mergeLogged runsSeenForPods logged, foundLogs')), st3)
              | (Panicked, st3) \<Rightarrow> (Panicked, st3)
              | (OutOfFuel, st3) \<Rightarrow> (OutOfFuel, st3))
         | (Panicked, st2) \<Rightarrow> (Panicked, st2)
         | (OutOfFuel, st2) \<Rightarrow> (OutOfFuel, st2))"
      using assms pf None sp by (simp add: loopBody_def)
    have early: ?thesis if "\<forall>vars. r \<noteq> Returned (Inr vars)" and "adds (\<lambda>run. map_of logged run = None) st1 st'"
    proof -
      have "adds (\<lambda>run. map_of logged run = None) ?st0 st1" using a1 by (rule adds_mono) simp
      then have "adds (\<lambda>run. map_of logged run = None) ?st0 st'" using that(2) by (rule adds_trans)
      then have "adds ?ok ?st0 st'" by (rule adds_mono) (simp add: that(1))
      then show ?thesis using that(1) by simp
    qed
    have ap': "adds (\<lambda>run. map_of logged run = None) st1 st2" using ap by (rule adds_mono) simp
    show ?thesis
    proof (cases rp)
      case Panicked
      with eq have "r = Panicked" "st' = st2" by simp_all
      with ap' show ?thesis by (intro early) simp_all
    next
      case OutOfFuel
      with eq have "r = OutOfFuel" "st' = st2" by simp_all
      with ap' show ?thesis by (intro early) simp_all
    next
      case (Returned x)
      show ?thesis
      proof (cases x)
        case (Inl e)
        with eq Returned have "r = Returned (Inl e)" "st' = st2" by simp_all
        with ap' show ?thesis by (intro early) simp_all
      next
        case (Inr acc')
        obtain seen found' where acc': "acc' = (seen, found')" by (cases acc')
        obtain rn st3 where gn: "getPipelineRunNamesForActivity env pa st2 = (rn, st3)"
          by (metis prod.exhaust)
        have a3: "adds ok' st2 st3" for ok' using gn by (rule getPipelineRunNamesForActivity_adds)
        have st3: "st' = st3" using eq Returned Inr acc' gn
          by (auto split: outcome.splits prod.splits option.splits)
        have a13: "adds (\<lambda>run. map_of logged run = None) st1 st'"
          using ap' a3 unfolding st3 by (rule adds_trans)
        show ?thesis
        proof (cases "\<exists>names. rn = Returned (names, None)")
          case False
          then have "\<forall>vars. r \<noteq> Returned (Inr vars)" using eq Returned Inr acc' gn
            by (auto split: outcome.splits prod.splits option.splits)
          then show ?thesis using a13 by (rule early)
        next
          case True
          then obtain names where rn: "rn = Returned (names, None)" by blast
          have r: "r = Returned (Inr (names, mergeLogged seen logged, found'))"
            using eq Returned Inr acc' gn rn by simp
          have okp: "?ok run" if "?okp run" for run
            using that r Returned Inr acc' by (simp add: keys_mergeLogged)
          have "adds ?okp st1 st'" using ap a3 unfolding st3 by (rule adds_trans)
          then have "adds ?ok st1 st'" using okp by (rule adds_mono)
          with a1 have "adds ?ok ?st0 st'" by (rule adds_trans)
          then show ?thesis using r by (simp add: keys_mergeLogged)
        qed
      qed
    qed
  qed
qed

lemma in_streamedRuns:
  "x \<in> set (streamedRuns tr) \<longleftrightarrow>
     (\<exists>e. e \<in> set tr \<and> isStreamLog (snd (snd e)) \<and> x = (fst e, fst (snd e)))"
  unfolding streamedRuns_def set_map set_filter image_iff by blast

lemma tracked_step:
  assumes tr: "tracked logged st"
    and ad: "adds ok (st\<lparr>iteration := Suc (iteration st)\<rparr>) st'"
    and fresh: "\<And>run. ok run \<Longrightarrow> run \<notin> logged"
  shows "streamedOnce (trace st')"
    and "(\<And>run. ok run \<Longrightarrow> run \<in> logged') \<Longrightarrow> logged \<subseteq> logged'
           \<Longrightarrow> tracked logged' st'"
proof -
  from ad obtain new where n: "iteration st' = Suc (iteration st)" "trace st' = trace st @ new"
    "\<forall>e \<in> set new. fst e = Suc (iteration st) \<and>
        (isStreamLog (snd (snd e)) \<longrightarrow> (\<exists>run. fst (snd e) = Some run \<and> ok run))"
    unfolding adds_def by auto
  from tr have once: "streamedOnce (trace st)"
    and old: "\<forall>e \<in> set (trace st). fst e \<le> iteration st \<and>
         (isStreamLog (snd (snd e)) \<longrightarrow> (\<exists>run. fst (snd e) = Some run \<and> run \<in> logged))"
    unfolding tracked_def by simp_all
  have notin: "run \<notin> logged" if "ok run" for run
    using fresh[OF that] .
  show so: "streamedOnce (trace st')"
    unfolding streamedOnce_def
  proof (intro ballI impI)
    fix a b
    assume a: "a \<in> set (streamedRuns (trace st'))" and b: "b \<in> set (streamedRuns (trace st'))"
      and eq: "snd a = snd b"
    from a obtain ea where ea0: "ea \<in> set (trace st')" and ea13: "a = (fst ea, fst (snd ea))"
      "isStreamLog (snd (snd ea))"
      unfolding in_streamedRuns by blast
    from b obtain eb where eb0: "eb \<in> set (trace st')" and eb13: "b = (fst eb, fst (snd eb))"
      "isStreamLog (snd (snd eb))"
      unfolding in_streamedRuns by blast
    have ea: "a = (fst ea, fst (snd ea))" "ea \<in> set (trace st) \<or> ea \<in> set new"
      "isStreamLog (snd (snd ea))"
      using ea0 ea13 n(2) by simp_all
    have eb: "b = (fst eb, fst (snd eb))" "eb \<in> set (trace st) \<or> eb \<in> set new"
      "isStreamLog (snd (snd eb))"
      using eb0 eb13 n(2) by simp_all
    consider (oo) "ea \<in> set (trace st)" "eb \<in> set (trace st)"
      | (nn) "ea \<in> set new" "eb \<in> set new"
      | (on) "ea \<in> set (trace st)" "eb \<in> set new"
      | (no) "ea \<in> set new" "eb \<in> set (trace st)"
      using ea(2) eb(2) by blast
    then show "fst a = fst b"
    proof cases
      case oo
      have "a \<in> set (streamedRuns (trace st))"
        unfolding in_streamedRuns using oo(1) ea(1,3) by blast
      moreover have "b \<in> set (streamedRuns (trace st))"
        unfolding in_streamedRuns using oo(2) eb(1,3) by blast
      ultimately have "a \<in> set (streamedRuns (trace st))" "b \<in> set (streamedRuns (trace st))"
        by simp_all
      with once eq show ?thesis unfolding streamedOnce_def by blast
    next
      case nn
      then show ?thesis using n(3) ea(1) eb(1) by simp
    next
      case on
      from old on(1) ea(3) obtain r1 where r1: "fst (snd ea) = Some r1" "r1 \<in> logged" by blast
      from n(3) on(2) eb(3) obtain r2 where r2: "fst (snd eb) = Some r2" "ok r2" by blast
      from eq ea(1) eb(1) r1(1) r2(1) have "r1 = r2" by simp
      with r1(2) notin[OF r2(2)] show ?thesis by simp
    next
      case no
      from old no(2) eb(3) obtain r1 where r1: "fst (snd eb) = Some r1" "r1 \<in> logged" by blast
      from n(3) no(1) ea(3) obtain r2 where r2: "fst (snd ea) = Some r2" "ok r2" by blast
      from eq ea(1) eb(1) r1(1) r2(1) have "r1 = r2" by simp
      with r1(2) notin[OF r2(2)] show ?thesis by simp
    qed
  qed
  assume cover: "\<And>run. ok run \<Longrightarrow> run \<in> logged'" and grow: "logged \<subseteq> logged'"
  have "\<forall>e \<in> set (trace st'). fst e \<le> iteration st' \<and>
         (isStreamLog (snd (snd e)) \<longrightarrow> (\<exists>run. fst (snd e) = Some run \<and> run \<in> logged'))"
  proof
    fix e assume "e \<in> set (trace st')"
    then consider "e \<in> set (trace st)" | "e \<in> set new" unfolding n(2) by auto
    then show "fst e \<le> iteration st' \<and>
         (isStreamLog (snd (snd e)) \<longrightarrow> (\<exists>run. fst (snd e) = Some run \<and> run \<in> logged'))"
    proof cases
      case 1
      with old have le: "fst e \<le> iteration st"
        and st: "isStreamLog (snd (snd e)) \<longrightarrow> (\<exists>run. fst (snd e) = Some run \<and> run \<in> logged)"
        by simp_all
      from le n(1) have "fst e \<le> iteration st'" by simp
      moreover from st grow
      have "isStreamLog (snd (snd e)) \<longrightarrow> (\<exists>run. fst (snd e) = Some run \<and> run \<in> logged')"
        by blast
      ultimately show ?thesis by simp
    next
      case 2
      with n(3) have le: "fst e = Suc (iteration st)"
        and st: "isStreamLog (snd (snd e)) \<longrightarrow> (\<exists>run. fst (snd e) = Some run \<and> ok run)"
        by simp_all
      from le n(1) have "fst e \<le> iteration st'" by simp
      moreover from st cover
      have "isStreamLog (snd (snd e)) \<longrightarrow> (\<exists>run. fst (snd e) = Some run \<and> run \<in> logged')"
        by blast
      ultimately show ?thesis by simp
    qed
  qed
  with so show "tracked logged' st'" unfolding tracked_def by simp
qed

lemma tracked_streamed:
  assumes "tracked logged st"
  shows "streamedOnce (trace st) \<and> None \<notin> snd ` set (streamedRuns (trace st))"
proof -
  have "snd x \<noteq> None" if "x \<in> set (streamedRuns (trace st))" for x
  proof -
    from that obtain e where e: "e \<in> set (trace st)" "isStreamLog (snd (snd e))" "x = (fst e, fst (snd e))"
      unfolding in_streamedRuns by blast
    from assms e(1,2) obtain run where "fst (snd e) = Some run" unfolding tracked_def by blast
    with e(3) show ?thesis by simp
  qed
  then have "None \<notin> snd ` set (streamedRuns (trace st))" by (metis imageE)
  with assms show ?thesis unfolding tracked_def by simp
qed

lemma logLoop_tracked:
  "tracked (fst ` set logged) st \<Longrightarrow>
   logLoop env writer pa buildName pollFuel fuel (names, logged, found) st = (r, st') \<Longrightarrow>
   \<exists>S. tracked S st'"
proof (induction fuel arbitrary: names logged found st)
  case 0
  then have "st' = st" by (simp split: if_splits)
  with 0 show ?case by blast
next
  case (Suc fuel)
  show ?case
  proof (cases "length names > length logged")
    case False
    with Suc.prems have "st' = st" by simp
    with Suc.prems show ?thesis by blast
  next
    case True
    obtain rb st1 where lb: "loopBody env writer pa buildName pollFuel logged found st = (rb, st1)"
      by (metis prod.exhaust)
    let ?ok = "\<lambda>run. map_of logged run = None \<and>
                 (\<forall>vars. rb = Returned (Inr vars) \<longrightarrow> run \<in> fst ` set (fst (snd vars)))"
    from loopBody_adds[OF lb]
    have ad: "adds ?ok (st\<lparr>iteration := Suc (iteration st)\<rparr>) st1"
      and grow: "\<forall>vars. rb = Returned (Inr vars) \<longrightarrow> fst ` set logged \<subseteq> fst ` set (fst (snd vars))"
      by simp_all
    have fresh: "\<And>run. ?ok run \<Longrightarrow> run \<notin> fst ` set logged"
      by (simp add: map_of_eq_None_iff)
    have eq: "(r, st') =
        (case (rb, st1) of
           (Returned (Inl e), st1) \<Rightarrow> (Returned (Some e), st1)
         | (Returned (Inr vars), st1) \<Rightarrow> logLoop env writer pa buildName pollFuel fuel vars st1
         | (Panicked, st1) \<Rightarrow> (Panicked, st1)
         | (OutOfFuel, st1) \<Rightarrow> (OutOfFuel, st1))"
      using Suc.prems(2) True lb by simp
    show ?thesis
    proof (cases "\<exists>vars. rb = Returned (Inr vars)")
      case False
      then have "st' = st1" using eq by (auto split: outcome.splits sum.splits)
      moreover have "tracked (fst ` set logged \<union> {run. ?ok run}) st1"
        using Suc.prems(1) ad fresh by (rule tracked_step(2)) simp_all
      ultimately show ?thesis by blast
    next
      case isInr: True
      then obtain names' logged' found' where rb: "rb = Returned (Inr (names', logged', found'))"
        by (metis prod.exhaust)
      have "tracked (fst ` set logged') st1"
        using Suc.prems(1) ad fresh
      proof (rule tracked_step(2))
        show "\<And>run. ?ok run \<Longrightarrow> run \<in> fst ` set logged'" using rb by simp
        show "fst ` set logged \<subseteq> fst ` set logged'" using grow rb by simp
      qed
      moreover have "logLoop env writer pa buildName pollFuel fuel (names', logged', found') st1 = (r, st')"
        using eq rb by simp
      ultimately show ?thesis by (rule Suc.IH)
    qed
  qed
qed

lemma tracked_initial: "tracked {} (initial w)"
  by (simp add: tracked_def initial_def streamedOnce_def streamedRuns_def)

lemma tracked_adds_none:
  assumes "tracked S st" and "adds (\<lambda>run. False) st st'"
  shows "tracked S st'"
proof -
  from assms(2) have it: "iteration st' = iteration st"
    and ex: "\<exists>new. trace st' = trace st @ new \<and>
             (\<forall>e \<in> set new. fst e = iteration st \<and>
                (isStreamLog (snd (snd e)) \<longrightarrow> (\<exists>run. fst (snd e) = Some run \<and> False)))"
    unfolding adds_def by blast+
  from ex obtain new where t: "trace st' = trace st @ new"
    and nn: "\<forall>e \<in> set new. fst e = iteration st \<and>
                (isStreamLog (snd (snd e)) \<longrightarrow> (\<exists>run. fst (snd e) = Some run \<and> False))"
    by blast
  have ns: "\<not> isStreamLog (snd (snd e))" if "e \<in> set new" for e using nn that by blast
  have ni: "fst e = iteration st" if "e \<in> set new" for e using nn that by blast
  have "filter (\<lambda>e. isStreamLog (snd (snd e))) new = []"
    unfolding filter_empty_conv using ns by blast
  then have same: "streamedRuns (trace st') = streamedRuns (trace st)"
    unfolding t streamedRuns_def by simp
  from assms(1) have once: "streamedOnce (trace st)"
    and old: "\<forall>e \<in> set (trace st). fst e \<le> iteration st \<and>
         (isStreamLog (snd (snd e)) \<longrightarrow> (\<exists>run. fst (snd e) = Some run \<and> run \<in> S))"
    unfolding tracked_def by blast+
  have once': "streamedOnce (trace st')"
    using once unfolding streamedOnce_def same .
  have cover: "\<forall>e \<in> set (trace st'). fst e \<le> iteration st' \<and>
         (isStreamLog (snd (snd e)) \<longrightarrow> (\<exists>run. fst (snd e) = Some run \<and> run \<in> S))"
  proof
    fix e assume "e \<in> set (trace st')"
    then consider "e \<in> set (trace st)" | "e \<in> set new" unfolding t by auto
    then show "fst e \<le> iteration st' \<and>
         (isStreamLog (snd (snd e)) \<longrightarrow> (\<exists>run. fst (snd e) = Some run \<and> run \<in> S))"
    proof cases
      case 1
      with old it show ?thesis by simp
    next
      case 2
      with ns ni it show ?thesis by simp
    qed
  qed
  from once' cover show ?thesis unfolding tracked_def by blast
qed

text \<open>
  C1. Whatever the platform and the writer do and however long the loop runs, the
  \<open>StreamLog\<close> calls made for the pods of one pipeline-run label all belong to one and
  the same loop iteration; every \<open>StreamLog\<close> call is made while a pod is being
  processed. So once an iteration has recorded a run name in \<open>pipelineRunsLogged\<close>, no later
  iteration streams a pod labelled with it.
\<close>

theorem each_run_streamed_in_one_iteration:
  "streamedOnce (trace (snd (GetRunningBuildLogs env pa buildName writer fuel (initial w))))
   \<and> None \<notin> snd ` set (streamedRuns (trace (snd (GetRunningBuildLogs env pa buildName writer fuel (initial w)))))"
proof -
  obtain rn st1 where gn: "getPipelineRunNamesForActivity env pa (initial w) = (rn, st1)"
    by (metis prod.exhaust)
  have "adds (\<lambda>run. False) (initial w) st1" using gn by (rule getPipelineRunNamesForActivity_adds)
  with tracked_initial have t1: "tracked {} st1" by (rule tracked_adds_none)
  obtain r st' where g: "GetRunningBuildLogs env pa buildName writer fuel (initial w) = (r, st')"
    by (metis prod.exhaust)
  have "\<exists>S. tracked S st'"
  proof (cases "\<exists>names. rn = Returned (names, None)")
    case False
    then have "st' = st1" using g gn
      by (auto simp: GetRunningBuildLogs_def split: outcome.splits prod.splits option.splits)
    with t1 show ?thesis by blast
  next
    case True
    then obtain names where rn: "rn = Returned (names, None)" by blast
    have "logLoop env writer pa buildName fuel fuel (names, [], False) st1 = (r, st')"
      using g gn rn by (simp add: GetRunningBuildLogs_def)
    moreover have "tracked (fst ` set []) st1" using t1 by simp
    ultimately show ?thesis by (rule logLoop_tracked[rotated])
  qed
  then obtain S where "tracked S st'" by blast
  then show ?thesis unfolding g by (simp add: tracked_streamed)
qed

theorem each_run_streamed_witness:
  "streamedOnce (trace (snd (GetRunningBuildLogs (scripted secondRunLater) widgets7 ''7'' quietWriter 3 (initial 0))))
   \<and> streamedRuns (trace (snd (GetRunningBuildLogs (scripted secondRunLater) widgets7 ''7'' quietWriter 3 (initial 0))))
       = [(1, Some ''run1''), (1, Some ''run1''), (2, Some ''run2''), (2, Some ''run2'')]
   \<and> fst (GetRunningBuildLogs (scripted secondRunLater) widgets7 ''7'' quietWriter 3 (initial 0)) = Returned None"
proof -
  have "streamedRuns (trace (snd (GetRunningBuildLogs (scripted secondRunLater) widgets7 ''7'' quietWriter
            (Suc (Suc (Suc 0))) (initial 0))))
       = [(1, Some ''run1''), (1, Some ''run1''), (2, Some ''run2''), (2, Some ''run2'')]
     \<and> fst (GetRunningBuildLogs (scripted secondRunLater) widgets7 ''7'' quietWriter (Suc (Suc (Suc 0))) (initial 0))
         = Returned None"
    by (simp add: model_defs script_defs secondRunLater_def streamedRuns_def label_def Let_def cong: case_congs)
  then show ?thesis
    using each_run_streamed_in_one_iteration[of "scripted secondRunLater" widgets7 "''7''" quietWriter 3 0]
    by (simp add: numeral_3_eq_3)
qed

lemma perform_eq: "perform c f st = (fst (f (world st)), emit c (st\<lparr>world := snd (f (world st))\<rparr>))"
  by (simp add: perform_def split: prod.splits)

text \<open>
  C10. When the query for the runs of the activity answers with an empty list and no
  error, the call makes no other call at all (the trace holds that one query: no pods are
  listed, the writer is not used, the loop is never entered) and returns the
  garbage-collected error, whatever fuel it is given.
\<close>

theorem no_runs_no_iteration:
  assumes "fst (PipelineRunsList env (pa_Namespace pa) (runSelector pa) w) = (Some [], None)"
  shows "GetRunningBuildLogs env pa buildName writer fuel (initial w)
           = (Returned (Some garbageCollected),
              \<lparr>world = snd (PipelineRunsList env (pa_Namespace pa) (runSelector pa) w), iteration = 0,
               podRun = None,
               trace = [(0, None, CallPipelineRunsList (pa_Namespace pa) (runSelector pa))]\<rparr>)"
proof -
  have "getPipelineRunNamesForActivity env pa (initial w)
      = (Returned ([], None),
         \<lparr>world = snd (PipelineRunsList env (pa_Namespace pa) (runSelector pa) w), iteration = 0,
          podRun = None, trace = [(0, None, CallPipelineRunsList (pa_Namespace pa) (runSelector pa))]\<rparr>)"
    using assms
    by (simp add: getPipelineRunNamesForActivity_def perform_eq emit_def initial_def)
  then show ?thesis
    by (cases fuel) (simp_all add: GetRunningBuildLogs_def afterLoop_def)
qed

theorem no_runs_witness:
  "fst (PipelineRunsList (scripted noScript) (pa_Namespace widgets7) (runSelector widgets7) 0) = (Some [], None)
   \<and> GetRunningBuildLogs (scripted noScript) widgets7 ''7'' quietWriter 5 (initial 0)
       = (Returned (Some garbageCollected),
          \<lparr>world = 1, iteration = 0, podRun = None,
           trace = [(0, None, CallPipelineRunsList ''jx'' ''owner=acme,repo=widgets,branch=master,build=7'')]\<rparr>)"
proof -
  have h: "fst (PipelineRunsList (scripted noScript) (pa_Namespace widgets7) (runSelector widgets7) 0) = (Some [], None)"
    by (simp add: scripted_def noScript_def)
  from no_runs_no_iteration[OF h, of "''7''" quietWriter 5] h
  show ?thesis by (simp add: scripted_def noScript_def widgets7_def runSelector_def)
qed





lemma callsOf_emit: "callsOf (emit c st) = callsOf st @ [c]"
  by (simp add: callsOf_def emit_def)

lemma callsOf_world: "callsOf (st\<lparr>world := w\<rparr>) = callsOf st"
  by (simp add: callsOf_def)

lemma accepts_WriteLog:
  "accepts writer \<Longrightarrow> perform c (WriteLog writer line) st
     = (None, emit c (st\<lparr>world := snd (WriteLog writer line (world st))\<rparr>))"
  by (simp add: accepts_def perform_eq)

lemma accepts_StreamLog:
  "accepts writer \<Longrightarrow> perform c (StreamLog writer ns pod ic) st
     = (None, emit c (st\<lparr>world := snd (StreamLog writer ns pod ic (world st))\<rparr>))"
  by (simp add: accepts_def perform_eq)

lemma waitForContainerToStart_failed:
  "pod_Phase pd = PodFailed \<Longrightarrow>
   waitForContainerToStart env ns (Some pd) idx logWriter fuel st
     = (Returned (Some pd, None), emit (CallWarnf (''pod '' @ pod_Name pd @ '' has failed'')) st)"
  by (simp add: waitForContainerToStart_def)

text \<open>
  C5, as the code has it. For a pod whose phase is failed when the wait for a container
  begins, \<open>waitForContainerToStart\<close> returns at once with the pod and no error; it warns in
  the process log and neither writes to the writer nor polls. \<open>GetRunningBuildLogs\<close> then
  goes through all the containers of the pod: for each, the warning, the header line and
  the \<open>StreamLog\<close> call, none left out; with a writer that accepts every call the loop over
  the containers ends without an error.
\<close>

theorem failed_pod_streams_every_container:
  assumes "pod_Phase pd = PodFailed" and "accepts writer"
  shows "waitForContainerToStart env (pa_Namespace pa) (Some pd) i writer fuel st
           = (Returned (Some pd, None), emit (CallWarnf (''pod '' @ pod_Name pd @ '' has failed'')) st)
       \<and> fst (streamContainers env writer pa buildName stageName fuel (Some pd) i ics st) = Returned None
       \<and> callsOf (snd (streamContainers env writer pa buildName stageName fuel (Some pd) i ics st))
           = callsOf st @
             concat (map (\<lambda>ic. [CallWarnf (''pod '' @ pod_Name pd @ '' has failed''),
                                 CallWriteLog (headerLine env buildName stageName ic),
                                 CallStreamLog (pa_Namespace pa) (Some pd) ic]) ics)"
proof -
  have "fst (streamContainers env writer pa buildName stageName fuel (Some pd) i ics st) = Returned None
       \<and> callsOf (snd (streamContainers env writer pa buildName stageName fuel (Some pd) i ics st))
           = callsOf st @
             concat (map (\<lambda>ic. [CallWarnf (''pod '' @ pod_Name pd @ '' has failed''),
                                 CallWriteLog (headerLine env buildName stageName ic),
                                 CallStreamLog (pa_Namespace pa) (Some pd) ic]) ics)"
  proof (induction ics arbitrary: i st)
    case Nil
    show ?case by simp
  next
    case (Cons ic ics)
    let ?st1 = "emit (CallWarnf (''pod '' @ pod_Name pd @ '' has failed'')) st"
    let ?st2 = "emit (CallWriteLog (headerLine env buildName stageName ic))
                  (?st1\<lparr>world := snd (WriteLog writer (headerLine env buildName stageName ic) (world ?st1))\<rparr>)"
    let ?st3 = "emit (CallStreamLog (pa_Namespace pa) (Some pd) ic)
                  (?st2\<lparr>world := snd (StreamLog writer (pa_Namespace pa) (Some pd) ic (world ?st2))\<rparr>)"
    have step: "streamContainers env writer pa buildName stageName fuel (Some pd) i (ic # ics) st
        = streamContainers env writer pa buildName stageName fuel (Some pd) (Suc i) ics ?st3"
      using assms
      by (simp add: waitForContainerToStart_failed accepts_WriteLog accepts_StreamLog)
    have calls: "callsOf ?st3 = callsOf st @ [CallWarnf (''pod '' @ pod_Name pd @ '' has failed''),
                                 CallWriteLog (headerLine env buildName stageName ic),
                                 CallStreamLog (pa_Namespace pa) (Some pd) ic]"
      by (simp add: callsOf_emit callsOf_world)
    show ?case unfolding step using Cons.IH[of "Suc i" ?st3] calls by simp
  qed
  with assms(1) show ?thesis by (simp add: waitForContainerToStart_failed)
qed

theorem failed_pod_witness:
  "pod_Phase (podOf ''pod1'' ''run1'' 6 PodFailed Waiting) = PodFailed
   \<and> accepts (quietWriter :: nat LogWriter)
   \<and> waitForContainerToStart (scripted failedPod) (pa_Namespace widgets7)
         (Some (podOf ''pod1'' ''run1'' 6 PodFailed Waiting)) 0 quietWriter 1 (initial 2)
       = (Returned (Some (podOf ''pod1'' ''run1'' 6 PodFailed Waiting), None),
          emit (CallWarnf (''pod '' @ pod_Name (podOf ''pod1'' ''run1'' 6 PodFailed Waiting) @ '' has failed''))
            (initial 2))
   \<and> fst (streamContainers (scripted failedPod) quietWriter widgets7 ''7'' ''ci'' 1
             (Some (podOf ''pod1'' ''run1'' 6 PodFailed Waiting)) 0 [\<lparr>c_Name = ''build''\<rparr>, \<lparr>c_Name = ''test''\<rparr>]
             (initial 2)) = Returned None
   \<and> callsOf (snd (streamContainers (scripted failedPod) quietWriter widgets7 ''7'' ''ci'' 1
             (Some (podOf ''pod1'' ''run1'' 6 PodFailed Waiting)) 0 [\<lparr>c_Name = ''build''\<rparr>, \<lparr>c_Name = ''test''\<rparr>]
             (initial 2)))
       = callsOf (initial 2 :: nat state) @
         concat (map (\<lambda>ic. [CallWarnf (''pod '' @ pod_Name (podOf ''pod1'' ''run1'' 6 PodFailed Waiting) @ '' has failed''),
                             CallWriteLog (headerLine (scripted failedPod) ''7'' ''ci'' ic),
                             CallStreamLog (pa_Namespace widgets7) (Some (podOf ''pod1'' ''run1'' 6 PodFailed Waiting)) ic])
                   [\<lparr>c_Name = ''build''\<rparr>, \<lparr>c_Name = ''test''\<rparr>])"
proof -
  have h1: "pod_Phase (podOf ''pod1'' ''run1'' 6 PodFailed Waiting) = PodFailed"
    by (simp add: podOf_def)
  have h2: "accepts (quietWriter :: nat LogWriter)"
    by (simp add: accepts_def quietWriter_def)
  note c = failed_pod_streams_every_container[OF h1 h2, of "scripted failedPod" widgets7 0 1 "initial 2" "''7''" "''ci''"
      "[\<lparr>c_Name = ''build''\<rparr>, \<lparr>c_Name = ''test''\<rparr>]"]
  from h1 h2 c show ?thesis by blast
qed

text \<open>
  C5 as stated fails: for a failed pod with two containers that never started, the warning
  goes to the process log and not to the writer, and the header line is written and
  \<open>StreamLog\<close> called for the first container and for the second as well.
\<close>

theorem failed_pod_counterexample:
  "pod_Phase (podOf ''pod1'' ''run1'' 6 PodFailed Waiting) = PodFailed
   \<and> GetContainersWithStatusAndIsInit (scripted failedPod) (podOf ''pod1'' ''run1'' 6 PodFailed Waiting)
       = [\<lparr>c_Name = ''build''\<rparr>, \<lparr>c_Name = ''test''\<rparr>]
   \<and> fst (GetRunningBuildLogs (scripted failedPod) widgets7 ''7'' quietWriter 1 (initial 0)) = Returned None
   \<and> callsOf (snd (GetRunningBuildLogs (scripted failedPod) widgets7 ''7'' quietWriter 1 (initial 0)))
       = [CallPipelineRunsList ''jx'' ''owner=acme,repo=widgets,branch=master,build=7'',
          CallGetBuildPods ''jx'',
          CallWarnf ''pod pod1 has failed'',
          CallWriteLog (''Showing logs for build 7 stage ci and container build'' @ [CHR 0x0A]),
          CallStreamLog ''jx'' (Some (podOf ''pod1'' ''run1'' 6 PodFailed Waiting)) \<lparr>c_Name = ''build''\<rparr>,
          CallWarnf ''pod pod1 has failed'',
          CallWriteLog (''Showing logs for build 7 stage ci and container test'' @ [CHR 0x0A]),
          CallStreamLog ''jx'' (Some (podOf ''pod1'' ''run1'' 6 PodFailed Waiting)) \<lparr>c_Name = ''test''\<rparr>,
          CallPipelineRunsList ''jx'' ''owner=acme,repo=widgets,branch=master,build=7'']"
  by (simp add: model_defs matcher_defs script_defs failedPod_def callsOf_def cong: case_congs)

lemma streamPods_none:
  "\<forall>pod \<in> set pods. \<not> podBelongs env pa pod \<Longrightarrow>
   streamPods env writer pa buildName fuel logged pods acc st = (Returned (Inr acc), st)"
  by (induction pods) (simp_all add: Let_def)

lemma getPipelineRunNamesForActivity_ok:
  assumes "fst (PipelineRunsList env (pa_Namespace pa) (runSelector pa) (world st)) = (Some prs, None)"
  shows "getPipelineRunNamesForActivity env pa st
           = (Returned (map pr_Name prs, None),
              emit (CallPipelineRunsList (pa_Namespace pa) (runSelector pa))
                (st\<lparr>world := snd (PipelineRunsList env (pa_Namespace pa) (runSelector pa) (world st))\<rparr>))"
  using assms by (simp add: getPipelineRunNamesForActivity_def perform_eq)

lemma world_emit: "world (emit c st) = world st"
  by (simp add: emit_def)

lemma loopBody_idle:
  assumes "snd (fst (GetBuildPods env (pa_Namespace pa) (world st))) = None"
    and "set (sortSlicePods env (\<lambda>a b. pod_CreationTimestamp a < pod_CreationTimestamp b)
                (fst (fst (GetBuildPods env (pa_Namespace pa) (world st)))))
           = set (fst (fst (GetBuildPods env (pa_Namespace pa) (world st))))"
    and "\<forall>pod \<in> set (fst (fst (GetBuildPods env (pa_Namespace pa) (world st)))). \<not> podBelongs env pa pod"
    and "fst (PipelineRunsList env (pa_Namespace pa) (runSelector pa)
               (snd (GetBuildPods env (pa_Namespace pa) (world st)))) = (Some prs, None)"
  shows "\<exists>st'. loopBody env writer pa buildName fuel logged found st
                 = (Returned (Inr (map pr_Name prs, logged, found)), st')
             \<and> world st' = snd (PipelineRunsList env (pa_Namespace pa) (runSelector pa)
                                  (snd (GetBuildPods env (pa_Namespace pa) (world st))))"
proof -
  let ?ns = "pa_Namespace pa"
  let ?g = "GetBuildPods env ?ns (world st)"
  let ?st1 = "emit (CallGetBuildPods ?ns) (st\<lparr>iteration := Suc (iteration st), world := snd ?g\<rparr>)"
  have pf: "perform (CallGetBuildPods ?ns) (GetBuildPods env ?ns) (st\<lparr>iteration := Suc (iteration st)\<rparr>)
      = ((fst (fst ?g), None), ?st1)"
  proof -
    have "fst ?g = (fst (fst ?g), None)" using assms(1) by (metis prod.collapse)
    then show ?thesis by (simp add: perform_eq)
  qed
  have none: "\<forall>pod \<in> set (sortSlicePods env (\<lambda>a b. pod_CreationTimestamp a < pod_CreationTimestamp b)
      (fst (fst ?g))). \<not> podBelongs env pa pod"
    using assms(2,3) by simp
  have sp: "streamPods env writer pa buildName fuel logged
      (sortSlicePods env (\<lambda>a b. pod_CreationTimestamp a < pod_CreationTimestamp b) (fst (fst ?g)))
      ([], found) ?st1 = (Returned (Inr ([], found)), ?st1)"
    using none by (rule streamPods_none)
  have w1: "world ?st1 = snd ?g" by (simp add: world_emit)
  have gn: "getPipelineRunNamesForActivity env pa ?st1
      = (Returned (map pr_Name prs, None),
         emit (CallPipelineRunsList ?ns (runSelector pa))
           (?st1\<lparr>world := snd (PipelineRunsList env ?ns (runSelector pa) (world ?st1))\<rparr>))"
  proof (rule getPipelineRunNamesForActivity_ok)
    show "fst (PipelineRunsList env ?ns (runSelector pa) (world ?st1)) = (Some prs, None)"
      using assms(4) by (simp only: w1)
  qed
  have "loopBody env writer pa buildName fuel logged found st
      = (Returned (Inr (map pr_Name prs, logged, found)),
         emit (CallPipelineRunsList ?ns (runSelector pa))
           (?st1\<lparr>world := snd (PipelineRunsList env ?ns (runSelector pa) (world ?st1))\<rparr>))"
    by (simp add: loopBody_def pf sp gn mergeLogged_def)
  then show ?thesis using w1 by (simp add: world_emit)
qed

lemma logLoop_idle:
  assumes perm: "\<forall>xs. set (sortSlicePods env (\<lambda>a b. pod_CreationTimestamp a < pod_CreationTimestamp b) xs) = set xs"
    and names: "\<forall>k \<le> K. \<exists>prs. idleNames env pa k w = (Some prs, None) \<and> (prs = [] \<longleftrightarrow> k = K)"
    and pods: "\<forall>k < K. snd (idlePods env pa k w) = None \<and>
                 (\<forall>pod \<in> set (fst (idlePods env pa k w)). \<not> podBelongs env pa pod)"
  shows "k \<le> K \<Longrightarrow> world st = idleWorld env pa k w \<Longrightarrow> idleNames env pa k w = (Some prs, None) \<Longrightarrow>
         fst (logLoop env writer pa buildName pollFuel fuel (map pr_Name prs, [], False) st)
           = (if K - k \<le> fuel then Returned (Some garbageCollected) else OutOfFuel)"
proof (induction fuel arbitrary: k st prs)
  case 0
  from names 0(1,3) have e: "prs = [] \<longleftrightarrow> k = K" by fastforce
  show ?case
  proof (cases "k = K")
    case True
    with e show ?thesis by (simp add: afterLoop_def)
  next
    case False
    with e 0(1) show ?thesis by simp
  qed
next
  case (Suc fuel)
  from names Suc.prems(1,3) have e: "prs = [] \<longleftrightarrow> k = K" by fastforce
  show ?case
  proof (cases "k = K")
    case True
    with e show ?thesis by (simp add: afterLoop_def)
  next
    case False
    with Suc.prems(1) have lt: "k < K" by simp
    from False e have ne: "prs \<noteq> []" by simp
    from pods lt have p1: "snd (idlePods env pa k w) = None"
      and p2: "\<forall>pod \<in> set (fst (idlePods env pa k w)). \<not> podBelongs env pa pod" by simp_all
    from names lt obtain prs' where n': "idleNames env pa (Suc k) w = (Some prs', None)"
      by (metis Suc_leI)
    have g: "GetBuildPods env (pa_Namespace pa) (world st) = GetBuildPods env (pa_Namespace pa) (idleWorld env pa k w)"
      using Suc.prems(2) by simp
    have "\<exists>st'. loopBody env writer pa buildName pollFuel [] False st
                 = (Returned (Inr (map pr_Name prs', [], False)), st')
             \<and> world st' = snd (PipelineRunsList env (pa_Namespace pa) (runSelector pa)
                                  (snd (GetBuildPods env (pa_Namespace pa) (world st))))"
    proof (rule loopBody_idle)
      show "snd (fst (GetBuildPods env (pa_Namespace pa) (world st))) = None"
        using p1 unfolding g idlePods_def .
      show "set (sortSlicePods env (\<lambda>a b. pod_CreationTimestamp a < pod_CreationTimestamp b)
                (fst (fst (GetBuildPods env (pa_Namespace pa) (world st)))))
           = set (fst (fst (GetBuildPods env (pa_Namespace pa) (world st))))"
        using perm by blast
      show "\<forall>pod \<in> set (fst (fst (GetBuildPods env (pa_Namespace pa) (world st)))). \<not> podBelongs env pa pod"
        using p2 unfolding g idlePods_def .
      show "fst (PipelineRunsList env (pa_Namespace pa) (runSelector pa)
               (snd (GetBuildPods env (pa_Namespace pa) (world st)))) = (Some prs', None)"
        using n' unfolding g by simp
    qed
    then obtain st1 where lb: "loopBody env writer pa buildName pollFuel [] False st
                 = (Returned (Inr (map pr_Name prs', [], False)), st1)"
      and w1: "world st1 = idleWorld env pa (Suc k) w"
      unfolding g by auto
    have "fst (logLoop env writer pa buildName pollFuel fuel (map pr_Name prs', [], False) st1)
           = (if K - Suc k \<le> fuel then Returned (Some garbageCollected) else OutOfFuel)"
      using lt w1 n' by (intro Suc.IH) simp_all
    moreover have "logLoop env writer pa buildName pollFuel (Suc fuel) (map pr_Name prs, [], False) st
        = logLoop env writer pa buildName pollFuel fuel (map pr_Name prs', [], False) st1"
      using ne lb by simp
    moreover have "(K - Suc k \<le> fuel) = (K - k \<le> Suc fuel)" using lt by auto
    ultimately show ?thesis by simp
  qed
qed

text \<open>
  C2, as the code has it. Suppose no pod of any listing belongs to the activity and no
  query fails. The call returns the garbage-collected error once a query for the runs
  comes back empty: if that happens at the \<open>K\<close>-th test of the loop condition, any fuel of
  at least \<open>K\<close> gives that result, after \<open>K\<close> passes; as long as the runs are still listed
  the loop goes on (less fuel than \<open>K\<close> runs out).
\<close>

theorem no_pods_returns_when_runs_gone:
  assumes "\<forall>xs. set (sortSlicePods env (\<lambda>a b. pod_CreationTimestamp a < pod_CreationTimestamp b) xs) = set xs"
    and "\<forall>k \<le> K. \<exists>prs. idleNames env pa k w = (Some prs, None) \<and> (prs = [] \<longleftrightarrow> k = K)"
    and "\<forall>k < K. snd (idlePods env pa k w) = None \<and>
                 (\<forall>pod \<in> set (fst (idlePods env pa k w)). \<not> podBelongs env pa pod)"
  shows "fst (GetRunningBuildLogs env pa buildName writer fuel (initial w))
           = (if K \<le> fuel then Returned (Some garbageCollected) else OutOfFuel)"
proof -
  from assms(2) obtain prs where n0: "idleNames env pa 0 w = (Some prs, None)" by blast
  then have q: "fst (PipelineRunsList env (pa_Namespace pa) (runSelector pa) (world (initial w))) = (Some prs, None)"
    by (simp add: initial_def)
  let ?st1 = "emit (CallPipelineRunsList (pa_Namespace pa) (runSelector pa))
                ((initial w)\<lparr>world := snd (PipelineRunsList env (pa_Namespace pa) (runSelector pa) (world (initial w)))\<rparr>)"
  have gn: "getPipelineRunNamesForActivity env pa (initial w) = (Returned (map pr_Name prs, None), ?st1)"
    using q by (rule getPipelineRunNamesForActivity_ok)
  have w1: "world ?st1 = idleWorld env pa 0 w" by (simp add: world_emit initial_def)
  have "fst (logLoop env writer pa buildName fuel fuel (map pr_Name prs, [], False) ?st1)
           = (if K - 0 \<le> fuel then Returned (Some garbageCollected) else OutOfFuel)"
    using assms _ w1 n0 by (rule logLoop_idle) simp
  then show ?thesis by (simp add: GetRunningBuildLogs_def gn)
qed

theorem no_pods_witness:
  "idleNames (scripted runsGone) widgets7 0 0 = (Some [runOf ''run1'' ''ci'' 5], None)
   \<and> idlePods (scripted runsGone) widgets7 0 0 = ([], None)
   \<and> idleNames (scripted runsGone) widgets7 1 0 = (Some [], None)
   \<and> fst (GetRunningBuildLogs (scripted runsGone) widgets7 ''7'' quietWriter 1 (initial 0))
       = Returned (Some garbageCollected)
   \<and> fst (GetRunningBuildLogs (scripted runsGone) widgets7 ''7'' quietWriter 0 (initial 0)) = OutOfFuel"
proof -
  let ?env = "scripted runsGone"
  have n0: "idleNames ?env widgets7 0 0 = (Some [runOf ''run1'' ''ci'' 5], None)"
    by (simp add: scripted_def runsGone_def noScript_def)
  have p0: "idlePods ?env widgets7 0 0 = ([], None)"
    by (simp add: idlePods_def scripted_def runsGone_def noScript_def)
  have n1: "idleNames ?env widgets7 1 0 = (Some [], None)"
    by (simp add: scripted_def runsGone_def noScript_def)
  have h1: "\<forall>xs. set (sortSlicePods ?env (\<lambda>a b. pod_CreationTimestamp a < pod_CreationTimestamp b) xs) = set xs"
    using insertionSort_Before by (auto simp: scripted_def sortSliceSpec_def dest: mset_eq_setD)
  have h2: "\<forall>k \<le> 1. \<exists>prs. idleNames ?env widgets7 k 0 = (Some prs, None) \<and> (prs = [] \<longleftrightarrow> k = 1)"
    using n0 n1 by (simp add: le_Suc_eq)
  have h3: "\<forall>k < 1. snd (idlePods ?env widgets7 k 0) = None \<and>
                 (\<forall>pod \<in> set (fst (idlePods ?env widgets7 k 0)). \<not> podBelongs ?env widgets7 pod)"
    using p0 by simp
  from no_pods_returns_when_runs_gone[OF h1 h2 h3, of "''7''" quietWriter 1]
       no_pods_returns_when_runs_gone[OF h1 h2 h3, of "''7''" quietWriter 0] n0 p0 n1
  show ?thesis by simp
qed

lemma logLoop_runStays:
  "fst (logLoop (scripted runStays) quietWriter widgets7 buildName pollFuel fuel ([''run1''], [], False) st)
     = OutOfFuel"
proof (induction fuel arbitrary: st)
  case 0
  show ?case by simp
next
  case (Suc fuel)
  let ?env = "scripted runStays"
  have "\<exists>st'. loopBody ?env quietWriter widgets7 buildName pollFuel [] False st
                 = (Returned (Inr (map pr_Name [runOf ''run1'' ''ci'' 5], [], False)), st')
             \<and> world st' = snd (PipelineRunsList ?env (pa_Namespace widgets7) (runSelector widgets7)
                                  (snd (GetBuildPods ?env (pa_Namespace widgets7) (world st))))"
    by (rule loopBody_idle) (simp_all add: scripted_def runStays_def noScript_def insertionSort_def)
  then obtain st1 where "loopBody ?env quietWriter widgets7 buildName pollFuel [] False st
                 = (Returned (Inr ([''run1''], [], False)), st1)"
    by (auto simp: runOf_def)
  then show ?case using Suc.IH[of st1] by simp
qed

text \<open>
  C2 as stated fails: with the run still listed and no pod at all, the call never returns,
  whatever fuel its loop is given.
\<close>

theorem no_pods_counterexample:
  "(\<forall>n. fst (podsAt runStays n) = [])
   \<and> (\<forall>fuel. fst (GetRunningBuildLogs (scripted runStays) widgets7 ''7'' quietWriter fuel (initial 0)) = OutOfFuel)"
proof -
  have q: "fst (PipelineRunsList (scripted runStays) (pa_Namespace widgets7) (runSelector widgets7) (world (initial 0)))
      = (Some [runOf ''run1'' ''ci'' 5], None)"
    by (simp add: scripted_def runStays_def noScript_def)
  have "fst (GetRunningBuildLogs (scripted runStays) widgets7 ''7'' quietWriter fuel (initial 0)) = OutOfFuel" for fuel
    using logLoop_runStays[of "''7''" fuel fuel]
    by (simp add: GetRunningBuildLogs_def getPipelineRunNamesForActivity_ok[OF q] runOf_def)
  then show ?thesis by (simp add: runStays_def noScript_def)
qed

lemma waitForContainerToStart_started:
  "HasContainerStarted env (Some pd) idx \<Longrightarrow>
   fst (waitForContainerToStart env ns (Some pd) idx logWriter fuel st) = Returned (Some pd, None)"
  by (simp add: waitForContainerToStart_def)

lemma streamContainers_started:
  assumes "accepts writer"
  shows "\<forall>j < length ics. HasContainerStarted env (Some pd) (i + j) \<Longrightarrow>
         fst (streamContainers env writer pa buildName stageName fuel (Some pd) i ics st) = Returned None"
proof (induction ics arbitrary: i st)
  case Nil
  show ?case by simp
next
  case (Cons ic ics)
  from Cons.prems have "HasContainerStarted env (Some pd) i" by fastforce
  then have "fst (waitForContainerToStart env (pa_Namespace pa) (Some pd) i writer fuel st)
      = Returned (Some pd, None)"
    by (rule waitForContainerToStart_started)
  then obtain st1 where w: "waitForContainerToStart env (pa_Namespace pa) (Some pd) i writer fuel st
      = (Returned (Some pd, None), st1)"
    by (metis prod.collapse)
  have rest: "\<forall>j < length ics. HasContainerStarted env (Some pd) (Suc i + j)"
    using Cons.prems by fastforce
  show ?case
    using Cons.IH[OF rest] assms
    by (simp add: w accepts_WriteLog accepts_StreamLog)
qed

lemma distinct_mergeLogged:
  "distinct (map fst logged) \<Longrightarrow> distinct (map fst (mergeLogged seen logged))"
  unfolding mergeLogged_def
proof (induction seen arbitrary: logged)
  case Nil
  then show ?case by simp
next
  case (Cons kv seen)
  obtain k v where kv: "kv = (k, v)" by (cases kv)
  have "distinct (map fst (AList.update k v logged))" using Cons.prems by (rule distinct_update)
  then have "distinct (map fst (fold (\<lambda>(k, v). AList.update k v) seen (AList.update k v logged)))"
    by (rule Cons.IH)
  then show ?case using kv by simp
qed

lemma streamPods_started:
  assumes "accepts writer"
  shows "\<forall>pod \<in> set pods. podBelongs env pa pod \<longrightarrow>
            (\<forall>i < length (GetContainersWithStatusAndIsInit env pod). HasContainerStarted env (Some pod) i) \<Longrightarrow>
         \<exists>seen' st'. streamPods env writer pa buildName fuel [] pods (seen, found) st
               = (Returned (Inr (seen', found \<or> (\<exists>pod \<in> set pods. podBelongs env pa pod))), st')
             \<and> fst ` set seen' = fst ` set seen \<union> podRunName env ` {pod \<in> set pods. podBelongs env pa pod}
             \<and> (distinct (map fst seen) \<longrightarrow> distinct (map fst seen'))"
proof (induction pods arbitrary: seen found st)
  case Nil
  show ?case by simp
next
  case (Cons pod pods)
  have rest: "\<forall>pod \<in> set pods. podBelongs env pa pod \<longrightarrow>
            (\<forall>i < length (GetContainersWithStatusAndIsInit env pod). HasContainerStarted env (Some pod) i)"
    using Cons.prems by simp
  show ?case
  proof (cases "podBelongs env pa pod")
    case False
    from Cons.IH[OF rest, of seen found st] False show ?thesis by (auto simp: Let_def)
  next
    case True
    let ?run = "podRunName env pod"
    have "\<forall>j < length (GetContainersWithStatusAndIsInit env pod). HasContainerStarted env (Some pod) (0 + j)"
      using Cons.prems True by simp
    with assms have "fst (streamContainers env writer pa buildName
        (label (pod_Labels pod) ''jenkins.io/task-stage-name'') fuel (Some pod) 0
        (GetContainersWithStatusAndIsInit env pod) (st\<lparr>podRun := Some ?run\<rparr>)) = Returned None"
      by (rule streamContainers_started)
    then obtain st1 where sc: "streamContainers env writer pa buildName
        (label (pod_Labels pod) ''jenkins.io/task-stage-name'') fuel (Some pod) 0
        (GetContainersWithStatusAndIsInit env pod) (st\<lparr>podRun := Some ?run\<rparr>) = (Returned None, st1)"
      by (metis prod.collapse)
    from Cons.IH[OF rest, of "AList.update ?run True seen" True "st1\<lparr>podRun := None\<rparr>"]
    obtain seen' st' where ih: "streamPods env writer pa buildName fuel [] pods
          (AList.update ?run True seen, True) (st1\<lparr>podRun := None\<rparr>)
        = (Returned (Inr (seen', True)), st')"
      "fst ` set seen' = fst ` set (AList.update ?run True seen)
          \<union> podRunName env ` {pod \<in> set pods. podBelongs env pa pod}"
      "distinct (map fst (AList.update ?run True seen)) \<longrightarrow> distinct (map fst seen')"
      by auto
    have "streamPods env writer pa buildName fuel [] (pod # pods) (seen, found) st
        = (Returned (Inr (seen', True)), st')"
      using True sc ih(1) by (simp add: Let_def)
    moreover have "fst ` set seen' = fst ` set seen
        \<union> podRunName env ` {p \<in> set (pod # pods). podBelongs env pa p}"
      using ih(2) True by (auto simp: keys_update)
    moreover have "distinct (map fst seen) \<longrightarrow> distinct (map fst seen')"
      using ih(3) by (simp add: distinct_update)
    ultimately show ?thesis using True by auto
  qed
qed

lemma logLoop_exit:
  "\<not> length names > length logged \<Longrightarrow>
   logLoop env writer pa buildName pollFuel fuel (names, logged, found) st = (Returned (afterLoop found), st)"
  by (cases fuel) simp_all

lemma loopBody_iteration:
  assumes "loopBody env writer pa buildName fuel logged found st = (r, st')"
  shows "iteration st' = Suc (iteration st)"
  using loopBody_adds[OF assms] by (simp add: adds_def)

lemma distinct_subset_length:
  assumes "distinct xs" and "set xs \<subseteq> set ys"
  shows "length xs \<le> length ys"
proof -
  have "length xs = card (set xs)" using assms(1) by (simp add: distinct_card)
  also have "\<dots> \<le> card (set ys)" using assms(2) by (simp add: card_mono)
  also have "\<dots> \<le> length ys" by (rule card_length)
  finally show ?thesis .
qed

text \<open>
  C7, as the code has it. Suppose the activity has runs when the call starts, the pods are
  listed without error, every listed pod that belongs to the activity has all its
  containers started, the writer accepts every call, and every query for the runs answers
  without error with runs of distinct names, each the run label of a listed pod that
  belongs to the activity. Then the first pass of the loop returns the requeried names and
  a \<open>pipelineRunsLogged\<close> whose keys are the run labels of the listed pods that belong to
  the activity: they include every requeried name (and are exactly the names when every
  belonging pod carries the label of a listed run), so the loop condition fails, and the
  call returns nil after exactly one pass, with any fuel that allows one pass.
\<close>

theorem started_runs_logged_in_one_pass:
  assumes perm: "\<forall>xs. set (sortSlicePods env (\<lambda>a b. pod_CreationTimestamp a < pod_CreationTimestamp b) xs) = set xs"
    and acc: "accepts writer"
    and first: "fst (PipelineRunsList env (pa_Namespace pa) (runSelector pa) w) = (Some prs0, None)"
    and ne: "prs0 \<noteq> []"
    and lst: "fst (GetBuildPods env (pa_Namespace pa)
                    (snd (PipelineRunsList env (pa_Namespace pa) (runSelector pa) w))) = (pods, None)"
    and started: "\<forall>pod \<in> set pods. podBelongs env pa pod \<longrightarrow>
            (\<forall>i < length (GetContainersWithStatusAndIsInit env pod). HasContainerStarted env (Some pod) i)"
    and runs: "\<forall>w'. \<exists>prs. fst (PipelineRunsList env (pa_Namespace pa) (runSelector pa) w') = (Some prs, None)
                  \<and> distinct (map pr_Name prs)
                  \<and> (\<forall>pr \<in> set prs. \<exists>pod \<in> set pods. podBelongs env pa pod \<and> podRunName env pod = pr_Name pr)"
  shows "\<exists>names logged st'.
           loopBody env writer pa buildName (Suc fuel) [] False (afterFirstQuery env pa w)
             = (Returned (Inr (names, logged, True)), st')
         \<and> fst ` set logged = podRunName env ` {pod \<in> set pods. podBelongs env pa pod}
         \<and> set names \<subseteq> fst ` set logged \<and> \<not> length names > length logged
         \<and> ((\<forall>pod \<in> set pods. podBelongs env pa pod \<longrightarrow> podRunName env pod \<in> set names)
                \<longrightarrow> fst ` set logged = set names)
         \<and> GetRunningBuildLogs env pa buildName writer (Suc fuel) (initial w) = (Returned None, st')
         \<and> iteration st' = 1"
proof -
  let ?ns = "pa_Namespace pa" and ?sel = "runSelector pa"
  let ?st1 = "afterFirstQuery env pa w"
  let ?lt = "\<lambda>a b. pod_CreationTimestamp a < pod_CreationTimestamp b"
  have q0: "fst (PipelineRunsList env ?ns ?sel (world (initial w))) = (Some prs0, None)"
    using first by (simp add: initial_def)
  have gn0: "getPipelineRunNamesForActivity env pa (initial w) = (Returned (map pr_Name prs0, None), ?st1)"
    using getPipelineRunNamesForActivity_ok[OF q0] by (simp add: afterFirstQuery_def initial_def)
  have w1: "world ?st1 = snd (PipelineRunsList env ?ns ?sel w)"
    by (simp add: afterFirstQuery_def world_emit)
  have i1: "iteration ?st1 = 0" by (simp add: afterFirstQuery_def emit_def initial_def)
  \<comment> \<open>the listing of the pods\<close>
  let ?st2 = "emit (CallGetBuildPods ?ns)
                (?st1\<lparr>iteration := Suc (iteration ?st1), world := snd (GetBuildPods env ?ns (world ?st1))\<rparr>)"
  have pf: "perform (CallGetBuildPods ?ns) (GetBuildPods env ?ns) (?st1\<lparr>iteration := Suc (iteration ?st1)\<rparr>)
      = ((pods, None), ?st2)"
    using lst by (simp add: perform_eq w1)
  \<comment> \<open>the pass over the pods\<close>
  have bel: "\<forall>pod \<in> set (sortSlicePods env ?lt pods). podBelongs env pa pod \<longrightarrow>
            (\<forall>i < length (GetContainersWithStatusAndIsInit env pod). HasContainerStarted env (Some pod) i)"
    using started perm by simp
  from streamPods_started[OF acc bel, of buildName "Suc fuel" "[]" False ?st2]
  obtain seen' st3 where sp: "streamPods env writer pa buildName (Suc fuel) [] (sortSlicePods env ?lt pods)
        ([], False) ?st2
      = (Returned (Inr (seen', \<exists>pod \<in> set (sortSlicePods env ?lt pods). podBelongs env pa pod)), st3)"
    and keys: "fst ` set seen' = podRunName env ` {pod \<in> set (sortSlicePods env ?lt pods). podBelongs env pa pod}"
    and dist: "distinct (map fst seen')"
    by auto
  have keys': "fst ` set seen' = podRunName env ` {pod \<in> set pods. podBelongs env pa pod}"
    using keys perm by simp
  \<comment> \<open>a pod belongs, since a run is listed\<close>
  from runs obtain prsw where "fst (PipelineRunsList env ?ns ?sel w) = (Some prsw, None)"
    and cov0: "\<forall>pr \<in> set prsw. \<exists>pod \<in> set pods. podBelongs env pa pod \<and> podRunName env pod = pr_Name pr"
    by blast
  with first have "prsw = prs0" by simp
  with ne cov0 obtain pod0 where "pod0 \<in> set pods" "podBelongs env pa pod0"
    by (cases prs0) auto
  then have found: "\<exists>pod \<in> set (sortSlicePods env ?lt pods). podBelongs env pa pod"
    using perm by auto
  \<comment> \<open>the second query for the runs\<close>
  from runs obtain prs where q1: "fst (PipelineRunsList env ?ns ?sel (world st3)) = (Some prs, None)"
    and d1: "distinct (map pr_Name prs)"
    and cov: "\<forall>pr \<in> set prs. \<exists>pod \<in> set pods. podBelongs env pa pod \<and> podRunName env pod = pr_Name pr"
    by blast
  let ?st4 = "emit (CallPipelineRunsList ?ns ?sel) (st3\<lparr>world := snd (PipelineRunsList env ?ns ?sel (world st3))\<rparr>)"
  have gn1: "getPipelineRunNamesForActivity env pa st3 = (Returned (map pr_Name prs, None), ?st4)"
    using q1 by (rule getPipelineRunNamesForActivity_ok)
  let ?names = "map pr_Name prs" and ?logged = "mergeLogged seen' []"
  have lb: "loopBody env writer pa buildName (Suc fuel) [] False ?st1
      = (Returned (Inr (?names, ?logged, True)), ?st4)"
    using found by (simp add: loopBody_def pf sp gn1)
  have lk: "fst ` set ?logged = podRunName env ` {pod \<in> set pods. podBelongs env pa pod}"
    using keys' by (simp add: keys_mergeLogged)
  have sub: "set ?names \<subseteq> fst ` set ?logged"
  proof
    fix n assume "n \<in> set ?names"
    then obtain pr where "pr \<in> set prs" "n = pr_Name pr" by auto
    with cov obtain pod where "pod \<in> set pods" "podBelongs env pa pod" "podRunName env pod = n" by blast
    then show "n \<in> fst ` set ?logged" unfolding lk by blast
  qed
  have "length ?names \<le> length (map fst ?logged)"
    using d1 sub by (intro distinct_subset_length) simp_all
  then have cond: "\<not> length ?names > length ?logged" by simp
  have eq: "fst ` set ?logged = set ?names"
    if "\<forall>pod \<in> set pods. podBelongs env pa pod \<longrightarrow> podRunName env pod \<in> set ?names"
    using that sub unfolding lk by blast
  have cond0: "length (map pr_Name prs0) > length ([] :: (string \<times> bool) list)" using ne by simp
  have "logLoop env writer pa buildName (Suc fuel) (Suc fuel) (map pr_Name prs0, [], False) ?st1
      = logLoop env writer pa buildName (Suc fuel) fuel (?names, ?logged, True) ?st4"
    using cond0 lb by simp
  also have "\<dots> = (Returned (afterLoop True), ?st4)" using cond by (rule logLoop_exit)
  finally have g: "GetRunningBuildLogs env pa buildName writer (Suc fuel) (initial w) = (Returned None, ?st4)"
    by (simp add: GetRunningBuildLogs_def gn0 afterLoop_def)
  have it: "iteration ?st4 = 1" using loopBody_iteration[OF lb] i1 by simp
  show ?thesis
    apply (rule exI[of _ ?names])
    apply (rule exI[of _ ?logged])
    apply (rule exI[of _ ?st4])
    using lb lk sub cond eq g it apply blast
    done
qed

theorem started_runs_witness:
  "accepts (quietWriter :: nat LogWriter)
   \<and> fst (PipelineRunsList (scripted allStarted) (pa_Namespace widgets7) (runSelector widgets7) 0)
       = (Some [runOf ''run1'' ''ci'' 5, runOf ''run2'' ''ci'' 8], None)
   \<and> fst (GetBuildPods (scripted allStarted) (pa_Namespace widgets7)
             (snd (PipelineRunsList (scripted allStarted) (pa_Namespace widgets7) (runSelector widgets7) 0)))
       = ([podOf ''pod2'' ''run2'' 9 PodRunning Running, podOf ''pod1'' ''run1'' 6 PodSucceeded Terminated], None)
   \<and> (\<exists>names logged st'.
           loopBody (scripted allStarted) quietWriter widgets7 ''7'' (Suc 0) [] False
               (afterFirstQuery (scripted allStarted) widgets7 0)
             = (Returned (Inr (names, logged, True)), st')
         \<and> fst ` set logged = podRunName (scripted allStarted) `
               {pod \<in> set [podOf ''pod2'' ''run2'' 9 PodRunning Running, podOf ''pod1'' ''run1'' 6 PodSucceeded Terminated].
                  podBelongs (scripted allStarted) widgets7 pod}
         \<and> set names \<subseteq> fst ` set logged \<and> \<not> length names > length logged
         \<and> ((\<forall>pod \<in> set [podOf ''pod2'' ''run2'' 9 PodRunning Running, podOf ''pod1'' ''run1'' 6 PodSucceeded Terminated].
                 podBelongs (scripted allStarted) widgets7 pod \<longrightarrow> podRunName (scripted allStarted) pod \<in> set names)
                \<longrightarrow> fst ` set logged = set names)
         \<and> GetRunningBuildLogs (scripted allStarted) widgets7 ''7'' quietWriter (Suc 0) (initial 0) = (Returned None, st')
         \<and> iteration st' = 1)"
proof -
  let ?env = "scripted allStarted"
  let ?p2 = "podOf ''pod2'' ''run2'' 9 PodRunning Running" and ?p1 = "podOf ''pod1'' ''run1'' 6 PodSucceeded Terminated"
  let ?r1 = "runOf ''run1'' ''ci'' 5" and ?r2 = "runOf ''run2'' ''ci'' 8"
  have perm: "\<forall>xs. set (sortSlicePods ?env (\<lambda>a b. pod_CreationTimestamp a < pod_CreationTimestamp b) xs) = set xs"
    using insertionSort_Before by (auto simp: scripted_def sortSliceSpec_def dest: mset_eq_setD)
  have acc: "accepts (quietWriter :: nat LogWriter)"
    by (simp add: accepts_def quietWriter_def)
  have first: "fst (PipelineRunsList ?env (pa_Namespace widgets7) (runSelector widgets7) 0) = (Some [?r1, ?r2], None)"
    by (simp add: scripted_def allStarted_def noScript_def)
  have ne: "[?r1, ?r2] \<noteq> []" by simp
  have lst: "fst (GetBuildPods ?env (pa_Namespace widgets7)
                    (snd (PipelineRunsList ?env (pa_Namespace widgets7) (runSelector widgets7) 0))) = ([?p2, ?p1], None)"
    by (simp add: scripted_def allStarted_def noScript_def)
  have b1: "podBelongs ?env widgets7 ?p1" and b2: "podBelongs ?env widgets7 ?p2"
    by (simp_all add: podBelongs_def script_defs label_def)
  have n1: "podRunName ?env ?p1 = ''run1''" and n2: "podRunName ?env ?p2 = ''run2''"
    by (simp_all add: podRunName_def script_defs label_def)
  have started: "\<forall>pod \<in> set [?p2, ?p1]. podBelongs ?env widgets7 pod \<longrightarrow>
            (\<forall>i < length (GetContainersWithStatusAndIsInit ?env pod). HasContainerStarted ?env (Some pod) i)"
    by (simp add: script_defs less_Suc_eq)
  have runs: "\<forall>w'. \<exists>prs. fst (PipelineRunsList ?env (pa_Namespace widgets7) (runSelector widgets7) w') = (Some prs, None)
                  \<and> distinct (map pr_Name prs)
                  \<and> (\<forall>pr \<in> set prs. \<exists>pod \<in> set [?p2, ?p1]. podBelongs ?env widgets7 pod \<and> podRunName ?env pod = pr_Name pr)"
  proof
    fix w'
    have "fst (PipelineRunsList ?env (pa_Namespace widgets7) (runSelector widgets7) w') = (Some [?r1, ?r2], None)"
      by (simp add: scripted_def allStarted_def noScript_def)
    moreover have "distinct (map pr_Name [?r1, ?r2])" by (simp add: runOf_def)
    moreover have "\<forall>pr \<in> set [?r1, ?r2]. \<exists>pod \<in> set [?p2, ?p1]. podBelongs ?env widgets7 pod \<and> podRunName ?env pod = pr_Name pr"
      using b1 b2 n1 n2 by (simp add: runOf_def)
    ultimately show "\<exists>prs. fst (PipelineRunsList ?env (pa_Namespace widgets7) (runSelector widgets7) w') = (Some prs, None)
                  \<and> distinct (map pr_Name prs)
                  \<and> (\<forall>pr \<in> set prs. \<exists>pod \<in> set [?p2, ?p1]. podBelongs ?env widgets7 pod \<and> podRunName ?env pod = pr_Name pr)"
      by blast
  qed
  note c = started_runs_logged_in_one_pass[OF perm acc first ne lst started runs, of "''7''" 0]
  from acc first lst c show ?thesis by blast
qed

text \<open>
  C7 as stated fails: the runs \<open>run1\<close> and \<open>run2\<close> each have a pod of the build with all
  containers started, and so has the run \<open>run0\<close>, which is no longer listed. The call returns
  nil after one pass, but \<open>pipelineRunsLogged\<close> then holds \<open>run0\<close>, \<open>run1\<close> and \<open>run2\<close>, which
  is not the set of the requeried names \<open>run1\<close> and \<open>run2\<close>.
\<close>

theorem started_runs_counterexample:
  "podBelongs (scripted staleRunPod) widgets7 (podOf ''pod1'' ''run1'' 6 PodSucceeded Terminated)
   \<and> podRunName (scripted staleRunPod) (podOf ''pod1'' ''run1'' 6 PodSucceeded Terminated) = ''run1''
   \<and> HasContainerStarted (scripted staleRunPod) (Some (podOf ''pod1'' ''run1'' 6 PodSucceeded Terminated)) 0
   \<and> HasContainerStarted (scripted staleRunPod) (Some (podOf ''pod1'' ''run1'' 6 PodSucceeded Terminated)) 1
   \<and> podBelongs (scripted staleRunPod) widgets7 (podOf ''pod2'' ''run2'' 9 PodRunning Running)
   \<and> podRunName (scripted staleRunPod) (podOf ''pod2'' ''run2'' 9 PodRunning Running) = ''run2''
   \<and> HasContainerStarted (scripted staleRunPod) (Some (podOf ''pod2'' ''run2'' 9 PodRunning Running)) 0
   \<and> HasContainerStarted (scripted staleRunPod) (Some (podOf ''pod2'' ''run2'' 9 PodRunning Running)) 1
   \<and> fst (loopBody (scripted staleRunPod) quietWriter widgets7 ''7'' (Suc 0) [] False
               (afterFirstQuery (scripted staleRunPod) widgets7 0))
       = Returned (Inr ([''run1'', ''run2''], [(''run0'', True), (''run1'', True), (''run2'', True)], True))
   \<and> fst ` set [(''run0'', True), (''run1'', True), (''run2'', True)] \<noteq> set [''run1'', ''run2'']
   \<and> fst (GetRunningBuildLogs (scripted staleRunPod) widgets7 ''7'' quietWriter (Suc 0) (initial 0)) = Returned None
   \<and> iteration (snd (GetRunningBuildLogs (scripted staleRunPod) widgets7 ''7'' quietWriter (Suc 0) (initial 0))) = 1"
proof -
  have a: "fst (loopBody (scripted staleRunPod) quietWriter widgets7 ''7'' (Suc 0) [] False
               (afterFirstQuery (scripted staleRunPod) widgets7 0))
       = Returned (Inr ([''run1'', ''run2''], [(''run0'', True), (''run1'', True), (''run2'', True)], True))"
    by (simp add: model_defs matcher_defs script_defs staleRunPod_def afterFirstQuery_def cong: case_congs)
  have b: "fst (GetRunningBuildLogs (scripted staleRunPod) widgets7 ''7'' quietWriter (Suc 0) (initial 0)) = Returned None
     \<and> iteration (snd (GetRunningBuildLogs (scripted staleRunPod) widgets7 ''7'' quietWriter (Suc 0) (initial 0))) = 1"
    by (simp add: model_defs matcher_defs script_defs staleRunPod_def cong: case_congs)
  have c: "podBelongs (scripted staleRunPod) widgets7 (podOf ''pod1'' ''run1'' 6 PodSucceeded Terminated)"
    "podBelongs (scripted staleRunPod) widgets7 (podOf ''pod2'' ''run2'' 9 PodRunning Running)"
    by (simp_all add: podBelongs_def script_defs label_def)
  have d: "podRunName (scripted staleRunPod) (podOf ''pod1'' ''run1'' 6 PodSucceeded Terminated) = ''run1''"
    "podRunName (scripted staleRunPod) (podOf ''pod2'' ''run2'' 9 PodRunning Running) = ''run2''"
    by (simp_all add: podRunName_def script_defs label_def)
  have e: "HasContainerStarted (scripted staleRunPod) (Some (podOf ''pod1'' ''run1'' 6 PodSucceeded Terminated)) 0"
    "HasContainerStarted (scripted staleRunPod) (Some (podOf ''pod1'' ''run1'' 6 PodSucceeded Terminated)) 1"
    "HasContainerStarted (scripted staleRunPod) (Some (podOf ''pod2'' ''run2'' 9 PodRunning Running)) 0"
    "HasContainerStarted (scripted staleRunPod) (Some (podOf ''pod2'' ''run2'' 9 PodRunning Running)) 1"
    by (simp_all add: script_defs)
  have f: "fst ` set [(''run0'', True), (''run1'', True), (''run2'', True)] \<noteq> set [''run1'', ''run2'']"
  proof
    assume eq: "fst ` set [(''run0'', True), (''run1'', True), (''run2'', True)] = set [''run1'', ''run2'']"
    have "''run0'' \<in> fst ` set [(''run0'', True), (''run1'', True), (''run2'', True)]" by simp
    then have "''run0'' \<in> set [''run1'', ''run2'']" by (simp only: eq)
    then show False by simp
  qed
  from a b c d e f show ?thesis by blast
qed

section \<open>Fuel\<close>

text \<open>Fuel only cuts a run short: a call that comes back with an answer other than
  \<open>OutOfFuel\<close> comes back with the same answer and the same state on any larger fuel.\<close>

lemma waitLoop_fuel:
  "waitLoop env ns name idx n st = (r, st') \<Longrightarrow> r \<noteq> OutOfFuel \<Longrightarrow> n \<le> m \<Longrightarrow>
   waitLoop env ns name idx m st = (r, st')"
proof (induction n arbitrary: m st)
  case 0
  then show ?case by simp
next
  case (Suc n)
  from Suc.prems(3) obtain m' where m: "m = Suc m'" "n \<le> m'" by (cases m) auto
  obtain p err st1 where pf:
    "perform (CallPodsGet ns name) (PodsGet env ns name) (emit CallSleep st) = ((p, err), st1)"
    by (metis prod.exhaust)
  show ?case
  proof (cases "err = None \<and> \<not> HasContainerStarted env p idx")
    case True
    with Suc.prems(1) pf have "waitLoop env ns name idx n st1 = (r, st')" by simp
    from Suc.IH[OF this Suc.prems(2) m(2)] True pf show ?thesis unfolding m(1) by simp
  next
    case False
    with Suc.prems(1) pf show ?thesis unfolding m(1) by (cases err) auto
  qed
qed

lemma waitForContainerToStart_fuel:
  assumes "waitForContainerToStart env ns pod idx logWriter n st = (r, st')" and "r \<noteq> OutOfFuel" and "n \<le> m"
  shows "waitForContainerToStart env ns pod idx logWriter m st = (r, st')"
proof (cases pod)
  case None
  with assms show ?thesis by (simp add: waitForContainerToStart_def)
next
  case (Some pd)
  show ?thesis
  proof (cases "pod_Phase pd = PodFailed \<or> HasContainerStarted env pod idx")
    case True
    with assms Some show ?thesis by (auto simp: waitForContainerToStart_def)
  next
    case False
    obtain err st1 where pf: "perform (CallWriteLog (waitingLine env pd idx))
        (WriteLog logWriter (waitingLine env pd idx)) st = (err, st1)"
      by (metis prod.exhaust)
    show ?thesis
    proof (cases err)
      case None
      with assms(1) Some False pf have "waitLoop env ns (pod_Name pd) idx n st1 = (r, st')"
        by (simp add: waitForContainerToStart_def)
      from waitLoop_fuel[OF this assms(2,3)] None Some False pf show ?thesis
        by (simp add: waitForContainerToStart_def)
    next
      case (Some e)
      with assms(1) \<open>pod = Some pd\<close> False pf
      have "waitLoop env ns (pod_Name pd) idx n
              (emit (CallWarnf ''There was a problem writing a single line into the writeFN'') st1) = (r, st')"
        by (simp add: waitForContainerToStart_def)
      from waitLoop_fuel[OF this assms(2,3)] Some \<open>pod = Some pd\<close> False pf show ?thesis
        by (simp add: waitForContainerToStart_def)
    qed
  qed
qed

lemma streamContainers_fuel:
  "streamContainers env writer pa buildName stageName n pod i ics st = (r, st') \<Longrightarrow> r \<noteq> OutOfFuel \<Longrightarrow>
   n \<le> m \<Longrightarrow> streamContainers env writer pa buildName stageName m pod i ics st = (r, st')"
proof (induction ics arbitrary: pod i st)
  case Nil
  then show ?case by simp
next
  case (Cons ic ics)
  obtain rw st1 where w: "waitForContainerToStart env (pa_Namespace pa) pod i writer n st = (rw, st1)"
    by (metis prod.exhaust)
  have rw: "rw \<noteq> OutOfFuel" using Cons.prems(1,2) w by (auto split: outcome.splits)
  have w': "waitForContainerToStart env (pa_Namespace pa) pod i writer m st = (rw, st1)"
    using w rw Cons.prems(3) by (rule waitForContainerToStart_fuel)
  show ?case
  proof (cases rw)
    case Panicked
    with Cons.prems(1) w w' show ?thesis by simp
  next
    case OutOfFuel
    with rw show ?thesis by simp
  next
    case (Returned pe)
    obtain pod' err where pe: "pe = (pod', err)" by (cases pe)
    obtain e2 st2 where h: "perform (CallWriteLog (headerLine env buildName stageName ic))
        (WriteLog writer (headerLine env buildName stageName ic)) st1 = (e2, st2)"
      by (metis prod.exhaust)
    show ?thesis
    proof (cases e2)
      case (Some e)
      with Cons.prems(1) w w' Returned pe h show ?thesis by simp
    next
      case None
      obtain e3 st3 where sl: "perform (CallStreamLog (pa_Namespace pa) pod' ic)
          (StreamLog writer (pa_Namespace pa) pod' ic) st2 = (e3, st3)"
        by (metis prod.exhaust)
      show ?thesis
      proof (cases e3)
        case (Some e)
        with Cons.prems(1) w w' Returned pe h None sl show ?thesis by simp
      next
        case e3None: None
        with Cons.prems(1) w Returned pe h None sl
        have "streamContainers env writer pa buildName stageName n pod' (Suc i) ics st3 = (r, st')"
          by simp
        from Cons.IH[OF this Cons.prems(2,3)] w' Returned pe h None sl e3None show ?thesis by simp
      qed
    qed
  qed
qed

lemma streamPods_fuel:
  "streamPods env writer pa buildName n logged pods acc st = (r, st') \<Longrightarrow> r \<noteq> OutOfFuel \<Longrightarrow>
   n \<le> m \<Longrightarrow> streamPods env writer pa buildName m logged pods acc st = (r, st')"
proof (induction pods arbitrary: acc st)
  case Nil
  then show ?case by simp
next
  case (Cons pod pods)
  let ?run = "podRunName env pod"
  show ?case
  proof (cases "map_of logged ?run = None \<and> podBelongs env pa pod")
    case False
    with Cons.prems(1) have "streamPods env writer pa buildName n logged pods acc st = (r, st')"
      by (auto simp: Let_def)
    from Cons.IH[OF this Cons.prems(2,3)] False show ?thesis by (auto simp: Let_def)
  next
    case True
    obtain rc st1 where sc: "streamContainers env writer pa buildName
        (label (pod_Labels pod) ''jenkins.io/task-stage-name'') n (Some pod) 0
        (GetContainersWithStatusAndIsInit env pod) (st\<lparr>podRun := Some ?run\<rparr>) = (rc, st1)"
      by (metis prod.exhaust)
    have rc: "rc \<noteq> OutOfFuel" using Cons.prems(1,2) True sc by (auto simp: Let_def split: outcome.splits)
    have sc': "streamContainers env writer pa buildName
        (label (pod_Labels pod) ''jenkins.io/task-stage-name'') m (Some pod) 0
        (GetContainersWithStatusAndIsInit env pod) (st\<lparr>podRun := Some ?run\<rparr>) = (rc, st1)"
      using sc rc Cons.prems(3) by (rule streamContainers_fuel)
    show ?thesis
    proof (cases "rc = Returned None")
      case False
      with Cons.prems(1) True sc sc' show ?thesis
        by (cases rc) (auto simp: Let_def split: option.splits)
    next
      case isNone: True
      with Cons.prems(1) True sc
      have "streamPods env writer pa buildName n logged pods
              (AList.update ?run True (fst acc), True) (st1\<lparr>podRun := None\<rparr>) = (r, st')"
        by (simp add: Let_def)
      from Cons.IH[OF this Cons.prems(2,3)] True sc' isNone show ?thesis by (simp add: Let_def)
    qed
  qed
qed

lemma loopBody_fuel:
  assumes "loopBody env writer pa buildName n logged found st = (r, st')" and "r \<noteq> OutOfFuel" and "n \<le> m"
  shows "loopBody env writer pa buildName m logged found st = (r, st')"
proof -
  let ?st0 = "st\<lparr>iteration := Suc (iteration st)\<rparr>"
  obtain pods err st1 where pf: "perform (CallGetBuildPods (pa_Namespace pa))
      (GetBuildPods env (pa_Namespace pa)) ?st0 = ((pods, err), st1)"
    by (metis prod.exhaust)
  show ?thesis
  proof (cases err)
    case (Some e)
    with assms(1) pf show ?thesis by (simp add: loopBody_def)
  next
    case None
    let ?sorted = "sortSlicePods env (\<lambda>a b. pod_CreationTimestamp a < pod_CreationTimestamp b) pods"
    obtain rp st2 where sp: "streamPods env writer pa buildName n logged ?sorted ([], found) st1 = (rp, st2)"
      by (metis prod.exhaust)
    have rp: "rp \<noteq> OutOfFuel" using assms(1,2) pf None sp by (auto simp: loopBody_def)
    have sp': "streamPods env writer pa buildName m logged ?sorted ([], found) st1 = (rp, st2)"
      using sp rp assms(3) by (rule streamPods_fuel)
    show ?thesis using assms(1) pf None sp sp' by (simp add: loopBody_def)
  qed
qed

lemma logLoop_fuel:
  "logLoop env writer pa buildName p n vars st = (r, st') \<Longrightarrow> r \<noteq> OutOfFuel \<Longrightarrow>
   p \<le> p' \<Longrightarrow> n \<le> n' \<Longrightarrow> logLoop env writer pa buildName p' n' vars st = (r, st')"
proof (induction n arbitrary: n' vars st)
  case 0
  obtain names logged found where vars: "vars = (names, logged, found)" by (cases vars)
  from 0(1,2) vars have "\<not> length names > length logged" by (auto split: if_splits)
  then show ?case using 0(1) vars by (simp add: logLoop_exit)
next
  case (Suc n)
  obtain names logged found where vars: "vars = (names, logged, found)" by (cases vars)
  show ?case
  proof (cases "length names > length logged")
    case False
    then show ?thesis using Suc.prems(1) vars by (simp add: logLoop_exit)
  next
    case True
    from Suc.prems(4) obtain k where n': "n' = Suc k" "n \<le> k" by (cases n') auto
    obtain rb st1 where lb: "loopBody env writer pa buildName p logged found st = (rb, st1)"
      by (metis prod.exhaust)
    have rb: "rb \<noteq> OutOfFuel" using Suc.prems(1,2) vars True lb by auto
    have lb': "loopBody env writer pa buildName p' logged found st = (rb, st1)"
      using lb rb Suc.prems(3) by (rule loopBody_fuel)
    show ?thesis
    proof (cases "\<exists>v. rb = Returned (Inr v)")
      case False
      then show ?thesis using Suc.prems(1) vars True lb lb' unfolding n'(1)
        by (cases rb) (auto split: sum.splits)
    next
      case isInr: True
      then obtain v where v: "rb = Returned (Inr v)" by blast
      with Suc.prems(1) vars True lb have "logLoop env writer pa buildName p n v st1 = (r, st')" by simp
      from Suc.IH[OF this Suc.prems(2,3) n'(2)] vars True lb' v show ?thesis unfolding n'(1) by simp
    qed
  qed
qed

text \<open>The same for the whole call: more fuel never changes an answer once there is one.\<close>

lemma GetRunningBuildLogs_fuel:
  assumes "GetRunningBuildLogs env pa buildName writer n st = (r, st')" and "r \<noteq> OutOfFuel" and "n \<le> m"
  shows "GetRunningBuildLogs env pa buildName writer m st = (r, st')"
proof -
  obtain rn st1 where gn: "getPipelineRunNamesForActivity env pa st = (rn, st1)"
    by (metis prod.exhaust)
  show ?thesis
  proof (cases "\<exists>names. rn = Returned (names, None)")
    case False
    then show ?thesis using assms(1) gn
      by (cases rn) (auto simp: GetRunningBuildLogs_def split: option.splits)
  next
    case True
    then obtain names where rn: "rn = Returned (names, None)" by blast
    with assms(1) gn have "logLoop env writer pa buildName n n (names, [], False) st1 = (r, st')"
      by (simp add: GetRunningBuildLogs_def)
    from logLoop_fuel[OF this assms(2,3,3)] gn rn show ?thesis by (simp add: GetRunningBuildLogs_def)
  qed
qed

end
